theory Spec2Isabelle
  imports Main "HOL-Library.Word"
begin

section \<open>The free store\<close>

text \<open>
  The programs own arrays allocated with \<^verbatim>\<open>new[]\<close> and released with
  \<^verbatim>\<open>delete[]\<close>, and what is stated about them depends on which object points
  to which array. The free store is therefore explicit: a map from addresses to blocks.
  Address 0 is \<^verbatim>\<open>nullptr\<close>. An address is never handed out twice, so a pointer
  to a released block stays recognisable as dangling.

  A cell of a block holds an \<^verbatim>\<open>int\<close>, a pointer, or an indeterminate value (what
  \<^verbatim>\<open>new int[n]\<close> without an initialiser leaves behind). The values of C++
  \<^verbatim>\<open>int\<close> variables are integers; the programs only copy and compare them,
  except for the counter \<^verbatim>\<open>Person::population\<close>, whose overflow is written out.
  Console output is not part of the state.
\<close>

type_synonym addr = nat

datatype val = Indet | IntV int | PtrV addr

text \<open>
  What an operation can end in besides returning. \<open>BadAlloc\<close> and
  \<open>BadArrayNewLength\<close> are the exceptions of \<^verbatim>\<open>new[]\<close>;
  \<open>UndefinedBehavior\<close> stands for every access the language leaves undefined (a
  dangling or null pointer, an index outside the block, reading an indeterminate
  value, releasing a block twice, signed overflow). \<open>OutOfRange\<close> and
  \<open>InvalidArgument\<close> are the two error kinds the specification names; no statement
  of the programs raises them.
\<close>

datatype error = UndefinedBehavior | BadAlloc | BadArrayNewLength | OutOfRange | InvalidArgument

record person =
  id' :: int
  age :: int
  name :: string

record student = person +
  marks :: addr

record mstudent =
  mid :: int
  mage :: int
  mname :: string
  fees :: "64 word"
  size' :: int
  matrix :: addr

record state =
  heap :: "addr \<rightharpoonup> val list"
  nxt :: addr
  avail :: nat
  population :: int
  students :: "addr \<rightharpoonup> student"
  mstudents :: "addr \<rightharpoonup> mstudent"

type_synonym 'a result = "(error + 'a) \<times> state"

definition ret :: "'a \<Rightarrow> state \<Rightarrow> 'a result" where
  "ret x st = (Inr x, st)"

definition throw :: "error \<Rightarrow> state \<Rightarrow> 'a result" where
  "throw e st = (Inl e, st)"

definition bnd :: "(state \<Rightarrow> 'a result) \<Rightarrow> ('a \<Rightarrow> state \<Rightarrow> 'b result) \<Rightarrow> state \<Rightarrow> 'b result" where
  "bnd m f st = (case m st of (Inl e, st') \<Rightarrow> (Inl e, st') | (Inr x, st') \<Rightarrow> f x st')"

text \<open>
  \<^verbatim>\<open>new T[n]\<close> with the block's initial contents \<open>ini\<close>: a negative length
  throws \<^verbatim>\<open>std::bad_array_new_length\<close>, a length beyond the \<open>avail\<close> cells
  left throws \<^verbatim>\<open>std::bad_alloc\<close>.
\<close>

definition new_arr :: "int \<Rightarrow> val list \<Rightarrow> state \<Rightarrow> addr result" where
  "new_arr n ini st =
     (if n < 0 then (Inl BadArrayNewLength, st)
      else if avail st < nat n then (Inl BadAlloc, st)
      else (Inr (nxt st),
            st\<lparr>heap := (heap st)(nxt st \<mapsto> ini), nxt := Suc (nxt st),
               avail := avail st - nat n\<rparr>))"

text \<open>\<^verbatim>\<open>delete[] p\<close>: nothing for the null pointer; a pointer that owns no block is
  undefined (a double release).\<close>

definition delete_arr :: "addr \<Rightarrow> state \<Rightarrow> unit result" where
  "delete_arr p st =
     (if p = 0 then (Inr (), st)
      else case heap st p of
        None \<Rightarrow> (Inl UndefinedBehavior, st)
      | Some b \<Rightarrow> (Inr (), st\<lparr>heap := (heap st)(p := None), avail := avail st + length b\<rparr>))"

text \<open>The built-in subscript \<^verbatim>\<open>p[i]\<close>, read and written. Nothing checks the index:
  outside the block the access is undefined.\<close>

definition read_cell :: "addr \<Rightarrow> nat \<Rightarrow> state \<Rightarrow> val result" where
  "read_cell p i st =
     (case heap st p of
        None \<Rightarrow> (Inl UndefinedBehavior, st)
      | Some b \<Rightarrow> if i < length b then (Inr (b ! i), st) else (Inl UndefinedBehavior, st))"

definition write_cell :: "addr \<Rightarrow> nat \<Rightarrow> val \<Rightarrow> state \<Rightarrow> unit result" where
  "write_cell p i v st =
     (case heap st p of
        None \<Rightarrow> (Inl UndefinedBehavior, st)
      | Some b \<Rightarrow> if i < length b then (Inr (), st\<lparr>heap := (heap st)(p \<mapsto> b[i := v])\<rparr>)
                 else (Inl UndefinedBehavior, st))"

definition read_int :: "addr \<Rightarrow> nat \<Rightarrow> state \<Rightarrow> int result" where
  "read_int p i st =
     (case read_cell p i st of
        (Inr (IntV n), st') \<Rightarrow> (Inr n, st')
      | (Inr _, st') \<Rightarrow> (Inl UndefinedBehavior, st')
      | (Inl e, st') \<Rightarrow> (Inl e, st'))"

definition read_ptr :: "addr \<Rightarrow> nat \<Rightarrow> state \<Rightarrow> addr result" where
  "read_ptr p i st =
     (case read_cell p i st of
        (Inr (PtrV q), st') \<Rightarrow> (Inr q, st')
      | (Inr _, st') \<Rightarrow> (Inl UndefinedBehavior, st')
      | (Inl e, st') \<Rightarrow> (Inl e, st'))"

text \<open>The subscript with a C++ \<^verbatim>\<open>int\<close> index, as \<^verbatim>\<open>marks[i]\<close> is written in
  the source: a negative index is outside the block like one beyond its end.\<close>

definition subscript_get :: "addr \<Rightarrow> int \<Rightarrow> state \<Rightarrow> int result" where
  "subscript_get p i st = (if i < 0 then (Inl UndefinedBehavior, st) else read_int p (nat i) st)"

definition subscript_set :: "addr \<Rightarrow> int \<Rightarrow> int \<Rightarrow> state \<Rightarrow> unit result" where
  "subscript_set p i v st =
     (if i < 0 then (Inl UndefinedBehavior, st) else write_cell p (nat i) (IntV v) st)"

text \<open>An object gets an address of its own when its constructor has run; the address
  serves as the object's identity (\<^verbatim>\<open>this == &s\<close>).\<close>

definition place_student :: "student \<Rightarrow> state \<Rightarrow> addr result" where
  "place_student x st =
     (Inr (nxt st), st\<lparr>nxt := Suc (nxt st), students := (students st)(nxt st \<mapsto> x)\<rparr>)"

definition place_mstudent :: "mstudent \<Rightarrow> state \<Rightarrow> addr result" where
  "place_mstudent x st =
     (Inr (nxt st), st\<lparr>nxt := Suc (nxt st), mstudents := (mstudents st)(nxt st \<mapsto> x)\<rparr>)"

text \<open>The state is well formed when every address in use is one that was handed out:
  not null and below \<open>nxt\<close>, the next address to hand out, which is not null either.\<close>

definition heap_ok :: "state \<Rightarrow> bool" where
  "heap_ok st \<longleftrightarrow>
     0 < nxt st \<and>
     (\<forall>p. (p \<in> dom (heap st) \<or> p \<in> dom (students st) \<or> p \<in> dom (mstudents st))
          \<longrightarrow> 0 < p \<and> p < nxt st)"

text \<open>Reading an object through a pointer or reference, and assigning to its fields. A
  reference to no object is undefined.\<close>

definition the_student :: "addr \<Rightarrow> state \<Rightarrow> student result" where
  "the_student a st =
     (case students st a of None \<Rightarrow> (Inl UndefinedBehavior, st) | Some x \<Rightarrow> (Inr x, st))"

definition the_mstudent :: "addr \<Rightarrow> state \<Rightarrow> mstudent result" where
  "the_mstudent a st =
     (case mstudents st a of None \<Rightarrow> (Inl UndefinedBehavior, st) | Some x \<Rightarrow> (Inr x, st))"


definition modify_mstudent :: "addr \<Rightarrow> (mstudent \<Rightarrow> mstudent) \<Rightarrow> state \<Rightarrow> unit result" where
  "modify_mstudent a f st =
     (case mstudents st a of
        None \<Rightarrow> (Inl UndefinedBehavior, st)
      | Some x \<Rightarrow> (Inr (), st\<lparr>mstudents := (mstudents st)(a \<mapsto> f x)\<rparr>))"

text \<open>The loop \<^verbatim>\<open>for (int i = 0; i < n; ++i) body\<close>, from index \<open>i\<close> on. It stops at
  the first iteration that does not return.\<close>

function for_loop :: "int \<Rightarrow> (nat \<Rightarrow> state \<Rightarrow> unit result) \<Rightarrow> nat \<Rightarrow> state \<Rightarrow> unit result" where
  "for_loop n body i st =
     (if int i < n then
        (case body i st of
           (Inl e, st') \<Rightarrow> (Inl e, st')
         | (Inr _, st') \<Rightarrow> for_loop n body (Suc i) st')
      else (Inr (), st))"
  by pat_completeness auto
termination
  by (relation "measure (\<lambda>(n, body, i, st). nat n - i)") auto

declare for_loop.simps [simp del]

section \<open>The program: Person and Student with three marks\<close>

definition INT_MAX :: int where
  "INT_MAX = 2147483647"

definition INT_MIN :: int where
  "INT_MIN = - 2147483648"

text \<open>\<^verbatim>\<open>population++\<close> and \<^verbatim>\<open>population--\<close> on the static \<^verbatim>\<open>int\<close>.\<close>

definition population_inc :: "state \<Rightarrow> unit result" where
  "population_inc st =
     (if population st = INT_MAX then (Inl UndefinedBehavior, st)
      else (Inr (), st\<lparr>population := population st + 1\<rparr>))"

definition population_dec :: "state \<Rightarrow> unit result" where
  "population_dec st =
     (if population st = INT_MIN then (Inl UndefinedBehavior, st)
      else (Inr (), st\<lparr>population := population st - 1\<rparr>))"

text \<open>\<^verbatim>\<open>Person(int x = 0) : id(0), age(x), name("Default") { population++; }\<close>\<close>

definition Person_ctor_default :: "int \<Rightarrow> state \<Rightarrow> person result" where
  "Person_ctor_default x =
     bnd population_inc (\<lambda>_. ret \<lparr>id' = 0, age = x, name = ''Default''\<rparr>)"

text \<open>\<^verbatim>\<open>Person(int age, string name, int personID = 0) : id(personID), age(age), name(name)
  { population++; }\<close>\<close>

definition Person_ctor :: "int \<Rightarrow> string \<Rightarrow> int \<Rightarrow> state \<Rightarrow> person result" where
  "Person_ctor a n personID =
     bnd population_inc (\<lambda>_. ret \<lparr>id' = personID, age = a, name = n\<rparr>)"

text \<open>\<^verbatim>\<open>Person(const Person& p) : id(p.id), age(p.age), name(p.name) { }\<close>: the copy
  constructor does not touch the counter.\<close>

definition Person_copy :: "person \<Rightarrow> state \<Rightarrow> person result" where
  "Person_copy p = ret \<lparr>id' = id' p, age = age p, name = name p\<rparr>"

text \<open>\<^verbatim>\<open>virtual ~Person() { population--; }\<close>\<close>

definition Person_dtor :: "person \<Rightarrow> state \<Rightarrow> unit result" where
  "Person_dtor p = population_dec"

text \<open>\<^verbatim>\<open>bool isVoteEligible(const bool hasSSN) const { return hasSSN && age >= 18; }\<close>\<close>

definition isVoteEligible :: "person \<Rightarrow> bool \<Rightarrow> bool" where
  "isVoteEligible p hasSSN \<longleftrightarrow> hasSSN \<and> age p \<ge> 18"

text \<open>A constructor body that throws after the \<^verbatim>\<open>Person\<close> base was built: the
  base is destroyed while the exception unwinds.\<close>

definition unwind_Person :: "person \<Rightarrow> 'a result \<Rightarrow> 'a result" where
  "unwind_Person p r =
     (case r of
        (Inl BadAlloc, st) \<Rightarrow> (Inl BadAlloc, snd (Person_dtor p st))
      | _ \<Rightarrow> r)"

text \<open>\<^verbatim>\<open>Student() : Person() { marks = new int[3]{0}; }\<close>\<close>

definition Student_ctor_default :: "state \<Rightarrow> addr result" where
  "Student_ctor_default =
     bnd (Person_ctor_default 0) (\<lambda>p st.
       unwind_Person p
         (bnd (new_arr 3 [IntV 0, IntV 0, IntV 0]) (\<lambda>m.
            place_student \<lparr>id' = id' p, age = age p, name = name p, marks = m\<rparr>) st))"

text \<open>\<^verbatim>\<open>Student(int age, string name, int id, int m1 = 0, int m2 = 0, int m3 = 0)
  : Person(age, name, id) { marks = new int[3]{m1, m2, m3}; }\<close>\<close>

definition Student_ctor :: "int \<Rightarrow> string \<Rightarrow> int \<Rightarrow> int \<Rightarrow> int \<Rightarrow> int \<Rightarrow> state \<Rightarrow> addr result" where
  "Student_ctor a n i m1 m2 m3 =
     bnd (Person_ctor a n i) (\<lambda>p st.
       unwind_Person p
         (bnd (new_arr 3 [IntV m1, IntV m2, IntV m3]) (\<lambda>m.
            place_student \<lparr>id' = id' p, age = age p, name = name p, marks = m\<rparr>) st))"

text \<open>The loop \<^verbatim>\<open>for (int i = 0; i < 3; ++i) marks[i] = s.marks[i];\<close> of the copy
  constructor and of the assignment operator.\<close>

definition copy_marks :: "addr \<Rightarrow> addr \<Rightarrow> state \<Rightarrow> unit result" where
  "copy_marks d s = for_loop 3 (\<lambda>i. bnd (read_int s i) (\<lambda>v. write_cell d i (IntV v))) 0"

text \<open>\<^verbatim>\<open>Student(const Student& s) : Person(s)
  { marks = new int[3]; for (...) marks[i] = s.marks[i]; }\<close>\<close>

definition Student_copy :: "addr \<Rightarrow> state \<Rightarrow> addr result" where
  "Student_copy s =
     bnd (the_student s) (\<lambda>y.
     bnd (Person_copy (person.truncate y)) (\<lambda>p st.
       unwind_Person p
         (bnd (new_arr 3 [Indet, Indet, Indet]) (\<lambda>m.
          bnd (copy_marks m (marks y)) (\<lambda>_.
            place_student \<lparr>id' = id' p, age = age p, name = name p, marks = m\<rparr>)) st)))"

text \<open>\<^verbatim>\<open>void operator=(const Student& s) { for (...) marks[i] = s.marks[i]; }\<close>\<close>

definition Student_assign :: "addr \<Rightarrow> addr \<Rightarrow> state \<Rightarrow> unit result" where
  "Student_assign this s =
     bnd (the_student this) (\<lambda>x.
     bnd (the_student s) (\<lambda>y.
       copy_marks (marks x) (marks y)))"



text \<open>Element access as \<^verbatim>\<open>main\<close> writes it, \<^verbatim>\<open>s2.marks[0] = 85\<close>: the built-in
  subscript on the public pointer.\<close>

definition Student_get_mark :: "addr \<Rightarrow> int \<Rightarrow> state \<Rightarrow> int result" where
  "Student_get_mark a i = bnd (the_student a) (\<lambda>x. subscript_get (marks x) i)"

definition Student_set_mark :: "addr \<Rightarrow> int \<Rightarrow> int \<Rightarrow> state \<Rightarrow> unit result" where
  "Student_set_mark a i v = bnd (the_student a) (\<lambda>x. subscript_set (marks x) i v)"

text \<open>The marks an object owns, when its pointer leads to a block of three initialised
  integers.\<close>

definition marks_of :: "state \<Rightarrow> addr \<Rightarrow> int list option" where
  "marks_of st a =
     (case students st a of
        None \<Rightarrow> None
      | Some x \<Rightarrow>
          (case heap st (marks x) of
             Some [IntV v0, IntV v1, IntV v2] \<Rightarrow> Some [v0, v1, v2]
           | _ \<Rightarrow> None))"

section \<open>The cheatsheet's class: Student with a square matrix\<close>

text \<open>
  The cheatsheet documents a second class \<^verbatim>\<open>Student\<close>, with the members
  \<^verbatim>\<open>const int id; int age; string name; double fees; int size; int **matrix\<close>,
  and prints its copy constructor, its copy assignment and its destructor. Its objects
  are the records \<open>mstudent\<close>; \<^verbatim>\<open>fees\<close> is the bit pattern of the
  \<^verbatim>\<open>double\<close>, which is only stored and copied.
\<close>

text \<open>\<^verbatim>\<open>for (int i = 0; i < size; ++i) matrix[i] = new int[size];\<close>\<close>

definition alloc_rows :: "addr \<Rightarrow> int \<Rightarrow> state \<Rightarrow> unit result" where
  "alloc_rows m n =
     for_loop n (\<lambda>i. bnd (new_arr n (replicate (nat n) Indet)) (\<lambda>r. write_cell m i (PtrV r))) 0"

text \<open>\<^verbatim>\<open>for (int i = 0; i < size; ++i) for (int j = 0; j < size; ++j)
  matrix[i][j] = s.matrix[i][j];\<close>\<close>

definition copy_cells :: "addr \<Rightarrow> addr \<Rightarrow> int \<Rightarrow> state \<Rightarrow> unit result" where
  "copy_cells d s n =
     for_loop n (\<lambda>i.
       for_loop n (\<lambda>j.
         bnd (read_ptr s i) (\<lambda>sr.
         bnd (read_int sr j) (\<lambda>v.
         bnd (read_ptr d i) (\<lambda>dr.
           write_cell dr j (IntV v))))) 0) 0"

text \<open>\<^verbatim>\<open>if (matrix) { for (int i = 0; i < size; ++i) delete[] matrix[i];
  delete[] matrix; }\<close>\<close>

definition free_matrix :: "addr \<Rightarrow> int \<Rightarrow> state \<Rightarrow> unit result" where
  "free_matrix m n =
     (if m \<noteq> 0 then
        bnd (for_loop n (\<lambda>i. bnd (read_ptr m i) delete_arr) 0) (\<lambda>_. delete_arr m)
      else ret ())"

text \<open>\<^verbatim>\<open>Student::Student(const Student &s)
  : id(s.id), age(s.age), name(s.name), size(s.size) {
    setFees(s.getFees());
    matrix = new int*[size];
    for (...) matrix[i] = new int[size];
    for (...) for (...) matrix[i][j] = s.matrix[i][j]; }\<close>
  An exception leaves no object behind, and what the body had allocated stays allocated.\<close>

definition StudentM_copy :: "addr \<Rightarrow> state \<Rightarrow> addr result" where
  "StudentM_copy s =
     bnd (the_mstudent s) (\<lambda>y.
     bnd (new_arr (size' y) (replicate (nat (size' y)) Indet)) (\<lambda>m.
     bnd (alloc_rows m (size' y)) (\<lambda>_.
     bnd (copy_cells m (matrix y) (size' y)) (\<lambda>_.
       place_mstudent
         \<lparr>mid = mid y, mage = mage y, mname = mname y, fees = fees y,
          size' = size' y, matrix = m\<rparr>))))"

text \<open>\<^verbatim>\<open>Student& Student::operator=(const Student &s) {
    if (this == &s) return *this;
    age = s.age; name = s.name; setFees(s.getFees());
    if (size != s.size) {
        if (matrix) { for (...) delete[] matrix[i]; delete[] matrix; }
        size = s.size;
        matrix = new int*[size];
        for (...) matrix[i] = new int[size];
    }
    for (...) for (...) matrix[i][j] = s.matrix[i][j];
    return *this; }\<close>
  Every assignment to a member is a step of its own, so the state an exception leaves
  behind is the one the source leaves.\<close>

definition StudentM_assign :: "addr \<Rightarrow> addr \<Rightarrow> state \<Rightarrow> unit result" where
  "StudentM_assign this s =
     (if this = s then ret ()
      else
        bnd (the_mstudent s) (\<lambda>y.
        bnd (modify_mstudent this (\<lambda>x. x\<lparr>mage := mage y, mname := mname y, fees := fees y\<rparr>)) (\<lambda>_.
        bnd (the_mstudent this) (\<lambda>x.
        bnd (if size' x \<noteq> size' y then
               bnd (free_matrix (matrix x) (size' x)) (\<lambda>_.
               bnd (modify_mstudent this (\<lambda>x. x\<lparr>size' := size' y\<rparr>)) (\<lambda>_.
               bnd (new_arr (size' y) (replicate (nat (size' y)) Indet)) (\<lambda>m.
               bnd (modify_mstudent this (\<lambda>x. x\<lparr>matrix := m\<rparr>)) (\<lambda>_.
                 alloc_rows m (size' y)))))
             else ret ()) (\<lambda>_.
        bnd (the_mstudent this) (\<lambda>x.
          copy_cells (matrix x) (matrix y) (size' x)))))))"


text \<open>Element access \<^verbatim>\<open>matrix[i][j]\<close> on an object, read and written.\<close>

definition StudentM_get :: "addr \<Rightarrow> int \<Rightarrow> int \<Rightarrow> state \<Rightarrow> int result" where
  "StudentM_get a i j =
     bnd (the_mstudent a) (\<lambda>x.
       if i < 0 then throw UndefinedBehavior
       else bnd (read_ptr (matrix x) (nat i)) (\<lambda>r. subscript_get r j))"

definition StudentM_set :: "addr \<Rightarrow> int \<Rightarrow> int \<Rightarrow> int \<Rightarrow> state \<Rightarrow> unit result" where
  "StudentM_set a i j v =
     bnd (the_mstudent a) (\<lambda>x.
       if i < 0 then throw UndefinedBehavior
       else bnd (read_ptr (matrix x) (nat i)) (\<lambda>r. subscript_set r j v))"

text \<open>
  An object \<open>x\<close> owns the matrix \<open>M\<close> in the row blocks \<open>rs\<close>: its pointer leads to
  a block of \<open>size\<close> row pointers, all different, and row \<open>i\<close> is a block of
  \<open>size\<close> initialised integers, the integers of \<open>M ! i\<close>.
\<close>

definition owns :: "state \<Rightarrow> mstudent \<Rightarrow> addr list \<Rightarrow> int list list \<Rightarrow> bool" where
  "owns st x rs M \<longleftrightarrow>
     0 \<le> size' x \<and> length rs = nat (size' x) \<and>
     heap st (matrix x) = Some (map PtrV rs) \<and> distinct (matrix x # rs) \<and>
     list_all2 (\<lambda>r row. heap st r = Some (map IntV row) \<and> length row = nat (size' x)) rs M"

text \<open>The addresses an object's matrix occupies.\<close>

definition footprint :: "mstudent \<Rightarrow> addr list \<Rightarrow> addr set" where
  "footprint x rs = insert (matrix x) (set rs)"

text \<open>The free store while the loop that allocates the rows runs: \<open>k\<close> rows of
  \<open>N\<close> indeterminate cells stand at the addresses from \<open>a\<close> on, and the pointer
  block \<open>m\<close> holds their addresses in its first \<open>k\<close> cells.\<close>

definition alloc_heap :: "(addr \<rightharpoonup> val list) \<Rightarrow> addr \<Rightarrow> addr \<Rightarrow> nat \<Rightarrow> nat \<Rightarrow> (addr \<rightharpoonup> val list)" where
  "alloc_heap h m a N k =
     (\<lambda>p. if p = m then Some (map PtrV [a..<a + k] @ replicate (N - k) Indet)
          else if a \<le> p \<and> p < a + k then Some (replicate N Indet) else h p)"

text \<open>The state in which \<^verbatim>\<open>main\<close> starts: nothing allocated, \<open>m\<close> cells of free
  store, and \<^verbatim>\<open>int Person::population = 0\<close>.\<close>

definition start_state :: "nat \<Rightarrow> state" where
  "start_state m =
     \<lparr>heap = Map.empty, nxt = 1, avail = m, population = 0,
      students = Map.empty, mstudents = Map.empty\<rparr>"

text \<open>Two students built by the parameterised constructor, for concrete runs.\<close>

definition two_students :: state where
  "two_students =
     snd (Student_ctor 21 ''Eve'' 7 4 5 6 (snd (Student_ctor 20 ''Bob'' 1 1 2 3 (start_state 10))))"

text \<open>The same state with two objects of the cheatsheet's class beside them: one with
  the 2 by 2 matrix \<open>[[1, 2], [3, 4]]\<close> at address 8, and one with the 1 by 1 matrix
  \<open>[[9]]\<close> at address 11; \<open>m\<close> cells of free store are left.\<close>

definition campus :: "nat \<Rightarrow> state" where
  "campus m =
     two_students
       \<lparr>heap := (heap two_students)
          (5 \<mapsto> [PtrV 6, PtrV 7], 6 \<mapsto> [IntV 1, IntV 2], 7 \<mapsto> [IntV 3, IntV 4],
           9 \<mapsto> [PtrV 10], 10 \<mapsto> [IntV 9]),
        nxt := 12, avail := m,
        mstudents :=
          [8 \<mapsto> \<lparr>mid = 101, mage = 22, mname = ''Ann'', fees = 5000, size' = 2, matrix = 5\<rparr>,
           11 \<mapsto> \<lparr>mid = 201, mage = 23, mname = ''Haseeb'', fees = 7000, size' = 1, matrix = 9\<rparr>]\<rparr>"

section \<open>Loops and the free store\<close>

lemma for_loop_rule:
  assumes "I i st"
    and step: "\<And>k s. i \<le> k \<Longrightarrow> int k < n \<Longrightarrow> I k s \<Longrightarrow> \<exists>s'. body k s = (Inr (), s') \<and> I (Suc k) s'"
  shows "\<exists>s'. for_loop n body i st = (Inr (), s') \<and> I (max i (nat n)) s'"
  using assms
proof (induction n body i st rule: for_loop.induct)
  case (1 n body i st)
  show ?case
  proof (cases "int i < n")
    case False
    then have "max i (nat n) = i" by simp
    with False "1.prems"(1) show ?thesis by (simp add: for_loop.simps[of n body i])
  next
    case True
    from "1.prems"(2)[OF le_refl True "1.prems"(1)] obtain s1 where
      b: "body i st = (Inr (), s1)" and I1: "I (Suc i) s1" by blast
    have "\<exists>s'. for_loop n body (Suc i) s1 = (Inr (), s') \<and> I (max (Suc i) (nat n)) s'"
      using "1.IH"[OF True b[symmetric] refl I1] "1.prems"(2) by (simp add: Suc_le_eq less_imp_le)
    moreover have "max (Suc i) (nat n) = max i (nat n)" using True by simp
    ultimately show ?thesis using True b by (simp add: for_loop.simps[of n body i])
  qed
qed

lemma for_loop_frame:
  assumes "P st" and step: "\<And>k s. P s \<Longrightarrow> P (snd (body k s))"
  shows "P (snd (for_loop n body i st))"
  using assms
proof (induction n body i st rule: for_loop.induct)
  case (1 n body i st)
  show ?case
  proof (cases "int i < n")
    case False
    with "1.prems"(1) show ?thesis by (simp add: for_loop.simps[of n body i])
  next
    case True
    show ?thesis
    proof (cases "body i st")
      case (Pair r s1)
      have P1: "P s1" using "1.prems"(2)[OF "1.prems"(1), of i] Pair by simp
      show ?thesis
      proof (cases r)
        case (Inl e)
        with True Pair P1 show ?thesis by (simp add: for_loop.simps[of n body i])
      next
        case (Inr u)
        have "P (snd (for_loop n body (Suc i) s1))"
          using "1.IH"[OF True _ _ P1, of "Inr u" u] Pair Inr "1.prems"(2) by simp
        with True Pair Inr show ?thesis by (simp add: for_loop.simps[of n body i])
      qed
    qed
  qed
qed

lemma heap_ok_fresh:
  assumes "heap_ok st"
  shows "heap st (nxt st) = None" and "students st (nxt st) = None" and "mstudents st (nxt st) = None"
    and "heap st p = Some b \<Longrightarrow> p \<noteq> nxt st \<and> p \<noteq> 0 \<and> p < nxt st"
  using assms unfolding heap_ok_def by (auto simp: dom_def)

lemma heap_okI:
  assumes "0 < nxt st"
    and "\<And>p b. heap st p = Some b \<Longrightarrow> 0 < p \<and> p < nxt st"
    and "\<And>p x. students st p = Some x \<Longrightarrow> 0 < p \<and> p < nxt st"
    and "\<And>p x. mstudents st p = Some x \<Longrightarrow> 0 < p \<and> p < nxt st"
  shows "heap_ok st"
  unfolding heap_ok_def using assms by (auto simp: dom_def)

lemma heap_okD:
  assumes "heap_ok st"
  shows "0 < nxt st"
    and "heap st p = Some b \<Longrightarrow> 0 < p \<and> p < nxt st"
    and "students st p = Some z \<Longrightarrow> 0 < p \<and> p < nxt st"
    and "mstudents st p = Some x \<Longrightarrow> 0 < p \<and> p < nxt st"
  using assms unfolding heap_ok_def by (auto simp: dom_def)


section \<open>Facts about the program with three marks\<close>

lemma two_students_eq:
  "two_students =
     \<lparr>heap = [1 \<mapsto> [IntV 1, IntV 2, IntV 3], 3 \<mapsto> [IntV 4, IntV 5, IntV 6]],
      nxt = 5, avail = 4, population = 2,
      students = [2 \<mapsto> \<lparr>id' = 1, age = 20, name = ''Bob'', marks = 1\<rparr>,
                  4 \<mapsto> \<lparr>id' = 7, age = 21, name = ''Eve'', marks = 3\<rparr>],
      mstudents = Map.empty\<rparr>"
  by (simp add: two_students_def Student_ctor_def Person_ctor_def population_inc_def
      unwind_Person_def new_arr_def place_student_def bnd_def ret_def start_state_def
      INT_MAX_def eval_nat_numeral)

lemmas for_loop_unroll3 =
  for_loop.simps[where i = 0] for_loop.simps[where i = "Suc 0"]
  for_loop.simps[where i = "Suc (Suc 0)"] for_loop.simps[where i = "Suc (Suc (Suc 0))"]

lemma copy_marks_run:
  assumes "heap st s = Some [IntV v0, IntV v1, IntV v2]"
    and "heap st d = Some [w0, w1, w2]"
  shows "copy_marks d s st =
           (Inr (), st\<lparr>heap := (heap st)(d \<mapsto> [IntV v0, IntV v1, IntV v2])\<rparr>)"
  using assms
  by (cases "s = d") (simp_all add: copy_marks_def for_loop_unroll3 bnd_def
      read_int_def read_cell_def write_cell_def)

lemma marks_of_SomeD:
  assumes "marks_of st a = Some vs"
  obtains x v0 v1 v2 where "students st a = Some x"
    and "heap st (marks x) = Some [IntV v0, IntV v1, IntV v2]" and "vs = [v0, v1, v2]"
  using assms
  by (auto simp: marks_of_def split: option.splits list.splits val.splits)

lemma Student_copy_run:
  assumes y: "students st s = Some y"
    and hy: "heap st (marks y) = Some [IntV v0, IntV v1, IntV v2]"
    and mem: "3 \<le> avail st" and ok: "heap_ok st"
  shows "Student_copy s st =
     (Inr (Suc (nxt st)),
      st\<lparr>heap := (heap st)(nxt st \<mapsto> [IntV v0, IntV v1, IntV v2]),
         nxt := Suc (Suc (nxt st)), avail := avail st - 3,
         students := (students st)(Suc (nxt st) \<mapsto>
           \<lparr>id' = id' y, age = age y, name = name y, marks = nxt st\<rparr>)\<rparr>)"
proof -
  have ne: "marks y \<noteq> nxt st" using heap_ok_fresh(4)[OF ok hy] by simp
  define st1 where "st1 = st\<lparr>heap := (heap st)(nxt st \<mapsto> [Indet, Indet, Indet]),
      nxt := Suc (nxt st), avail := avail st - 3\<rparr>"
  have new: "new_arr 3 [Indet, Indet, Indet] st = (Inr (nxt st), st1)"
    using mem by (simp add: new_arr_def st1_def)
  have h1: "heap st1 (marks y) = Some [IntV v0, IntV v1, IntV v2]"
    and h2: "heap st1 (nxt st) = Some [Indet, Indet, Indet]"
    using hy ne by (simp_all add: st1_def)
  have cp: "copy_marks (nxt st) (marks y) st1 =
      (Inr (), st1\<lparr>heap := (heap st1)(nxt st \<mapsto> [IntV v0, IntV v1, IntV v2])\<rparr>)"
    by (rule copy_marks_run [OF h1 h2])
  show ?thesis
    using y new cp
    by (simp add: Student_copy_def the_student_def Person_copy_def bnd_def ret_def
        unwind_Person_def place_student_def person.truncate_def st1_def)
qed

lemma Student_set_mark_run:
  assumes "students st a = Some x" and "heap st (marks x) = Some b" and "0 \<le> i" and "nat i < length b"
  shows "Student_set_mark a i v st = (Inr (), st\<lparr>heap := (heap st)(marks x \<mapsto> b[nat i := IntV v])\<rparr>)"
  using assms
  by (simp add: Student_set_mark_def the_student_def bnd_def subscript_set_def write_cell_def)

lemma marks_of_eq:
  assumes "students st a = Some x" and "heap st (marks x) = Some (map IntV ws)" and "length ws = 3"
  shows "marks_of st a = Some ws"
proof -
  from assms(3) obtain a b c where "ws = [a, b, c]"
    by (auto simp: numeral_3_eq_3 length_Suc_conv)
  then show ?thesis using assms(1,2) by (simp add: marks_of_def)
qed

lemma Student_set_mark_marks:
  assumes x: "students st a = Some x" and h: "heap st (marks x) = Some (map IntV ws)"
    and l: "length ws = 3" and i: "0 \<le> i" "i < 3"
  shows "Student_set_mark a i v st =
           (Inr (), st\<lparr>heap := (heap st)(marks x \<mapsto> map IntV (ws[nat i := v]))\<rparr>)"
    and "marks_of (snd (Student_set_mark a i v st)) a = Some (ws[nat i := v])"
proof -
  have ni: "nat i < length (map IntV ws)" using i l by simp
  show run: "Student_set_mark a i v st =
           (Inr (), st\<lparr>heap := (heap st)(marks x \<mapsto> map IntV (ws[nat i := v]))\<rparr>)"
    using Student_set_mark_run[OF x h i(1) ni, of v] by (simp add: map_update)
  show "marks_of (snd (Student_set_mark a i v st)) a = Some (ws[nat i := v])"
    unfolding run by (rule marks_of_eq[where x = x]) (use x l in simp_all)
qed

lemma marks_of_other:
  assumes "marks_of st b = Some ws" and "students st b = Some z" and "marks z \<noteq> p"
  shows "marks_of (st\<lparr>heap := (heap st)(p \<mapsto> blk)\<rparr>) b = Some ws"
  using assms by (simp add: marks_of_def)

lemma marks_of_heapD:
  assumes "marks_of st a = Some ws" and "students st a = Some x"
  shows "heap st (marks x) = Some (map IntV ws)" and "length ws = 3"
  using assms by (auto elim!: marks_of_SomeD)

lemma Student_ctor_run:
  assumes "population st \<noteq> INT_MAX" and "3 \<le> avail st"
  shows "Student_ctor a n i m1 m2 m3 st =
     (Inr (Suc (nxt st)),
      st\<lparr>heap := (heap st)(nxt st \<mapsto> [IntV m1, IntV m2, IntV m3]),
         nxt := Suc (Suc (nxt st)), avail := avail st - 3, population := population st + 1,
         students := (students st)(Suc (nxt st) \<mapsto>
           \<lparr>id' = i, age = a, name = n, marks = nxt st\<rparr>)\<rparr>)"
    and "Student_ctor_default st =
     (Inr (Suc (nxt st)),
      st\<lparr>heap := (heap st)(nxt st \<mapsto> [IntV 0, IntV 0, IntV 0]),
         nxt := Suc (Suc (nxt st)), avail := avail st - 3, population := population st + 1,
         students := (students st)(Suc (nxt st) \<mapsto>
           \<lparr>id' = 0, age = 0, name = ''Default'', marks = nxt st\<rparr>)\<rparr>)"
  using assms
  by (simp_all add: Student_ctor_def Student_ctor_default_def Person_ctor_def
      Person_ctor_default_def population_inc_def unwind_Person_def new_arr_def
      place_student_def bnd_def ret_def)

lemma Student_ctor_fail:
  assumes "population st \<noteq> INT_MAX" and "INT_MIN \<le> population st" and "avail st < 3"
  shows "Student_ctor a n i m1 m2 m3 st = (Inl BadAlloc, st)"
    and "Student_ctor_default st = (Inl BadAlloc, st)"
  using assms
  by (simp_all add: Student_ctor_def Student_ctor_default_def Person_ctor_def
      Person_ctor_default_def population_inc_def unwind_Person_def new_arr_def
      Person_dtor_def population_dec_def bnd_def ret_def INT_MIN_def)

lemma Student_get_mark_run:
  assumes x: "students st a = Some x" and h: "heap st (marks x) = Some (map IntV ws)"
    and i: "0 \<le> i" "nat i < length ws"
  shows "Student_get_mark a i st = (Inr (ws ! nat i), st)"
  using assms
  by (simp add: Student_get_mark_def the_student_def bnd_def subscript_get_def read_int_def
      read_cell_def)

lemma Student_mark_out_of_range:
  assumes x: "students st a = Some x" and h: "heap st (marks x) = Some b"
    and i: "i < 0 \<or> int (length b) \<le> i"
  shows "Student_get_mark a i st = (Inl UndefinedBehavior, st)"
    and "Student_set_mark a i v st = (Inl UndefinedBehavior, st)"
  using assms
  by (auto simp: Student_get_mark_def Student_set_mark_def the_student_def bnd_def
      subscript_get_def subscript_set_def read_int_def read_cell_def write_cell_def)














section \<open>Facts about the class with a matrix\<close>

lemma ptr_block_step:
  assumes "k < N"
  shows "(map PtrV [a..<a + k] @ replicate (N - k) Indet)[k := PtrV (a + k)] =
         map PtrV [a..<a + Suc k] @ replicate (N - Suc k) Indet"
proof -
  from assms obtain j where N: "N - k = Suc j" by (cases "N - k") auto
  then have "N - Suc k = j" by simp
  then show ?thesis using N by (simp add: list_update_append)
qed

lemma alloc_rows_run:
  assumes m: "heap st m = Some (replicate N Indet)" and n: "n = int N"
    and mem: "N * N \<le> avail st" and lt: "m < nxt st"
  shows "alloc_rows m n st =
     (Inr (), st\<lparr>heap := alloc_heap (heap st) m (nxt st) N N,
                nxt := nxt st + N, avail := avail st - N * N\<rparr>)"
proof -
  define a where "a = nxt st"
  define I where "I = (\<lambda>k s. k \<le> N \<and> s = st\<lparr>heap := alloc_heap (heap st) m a N k,
      nxt := a + k, avail := avail st - k * N\<rparr>)"
  let ?body = "\<lambda>i. bnd (new_arr n (replicate (nat n) Indet)) (\<lambda>r. write_cell m i (PtrV r))"
  have I0: "I 0 st"
    using m by (auto simp: I_def alloc_heap_def a_def fun_eq_iff)
  have step: "\<exists>s'. ?body k s = (Inr (), s') \<and> I (Suc k) s'"
    if "0 \<le> k" and k: "int k < n" and Ik: "I k s" for k s
  proof -
    from k n have kN: "k < N" by simp
    from Ik have s: "s = st\<lparr>heap := alloc_heap (heap st) m a N k, nxt := a + k,
        avail := avail st - k * N\<rparr>" by (simp add: I_def)
    have "Suc k * N \<le> N * N" using kN by (simp add: Suc_le_eq mult_le_mono1 del: mult_Suc)
    then have av: "N + k * N \<le> avail st" using mem by simp
    have ne: "m \<noteq> a + k" using lt by (simp add: a_def)
    have heq: "(alloc_heap (heap st) m a N k)(a + k \<mapsto> replicate N Indet,
          m \<mapsto> (map PtrV [a..<a + k] @ replicate (N - k) Indet)[k := PtrV (a + k)]) =
        alloc_heap (heap st) m a N (Suc k)"
      unfolding ptr_block_step[OF kN] using ne
      by (auto simp: alloc_heap_def fun_eq_iff)
    have "?body k s = (Inr (), st\<lparr>heap := alloc_heap (heap st) m a N (Suc k),
        nxt := a + Suc k, avail := avail st - Suc k * N\<rparr>)"
      using av kN n ne heq
      by (simp add: s bnd_def new_arr_def write_cell_def alloc_heap_def)
    then show ?thesis using kN by (simp add: I_def)
  qed
  from for_loop_rule[of I 0 st n ?body, OF I0 step]
  show ?thesis using n by (auto simp: alloc_rows_def I_def a_def)
qed

lemma int_row_step:
  assumes "j < length row" and "length b0 = length row"
  shows "(map IntV (take j row) @ drop j b0)[j := IntV (row ! j)] =
         map IntV (take (Suc j) row) @ drop (Suc j) b0"
proof -
  have "drop j b0 = b0 ! j # drop (Suc j) b0"
    using assms by (simp add: Cons_nth_drop_Suc)
  then show ?thesis
    using assms by (simp add: list_update_append take_Suc_conv_app_nth min_def)
qed

lemma copy_row_run:
  assumes s: "heap st s = Some ps" and ks: "k < length ps" and sr: "ps ! k = PtrV sr"
    and d: "heap st d = Some pd" and kd: "k < length pd" and dr: "pd ! k = PtrV dr"
    and row: "heap st sr = Some (map IntV row)" and lr: "length row = N"
    and b0: "heap st dr = Some b0" and lb: "length b0 = N"
    and ne: "dr \<noteq> s" "dr \<noteq> d" "dr \<noteq> sr" and n: "n = int N"
  shows "for_loop n (\<lambda>j.
           bnd (read_ptr s k) (\<lambda>sr.
           bnd (read_int sr j) (\<lambda>v.
           bnd (read_ptr d k) (\<lambda>dr.
             write_cell dr j (IntV v))))) 0 st =
         (Inr (), st\<lparr>heap := (heap st)(dr \<mapsto> map IntV row)\<rparr>)"
    (is "for_loop n ?body 0 st = _")
proof -
  define I where "I = (\<lambda>j s'. j \<le> N \<and>
     s' = st\<lparr>heap := (heap st)(dr \<mapsto> map IntV (take j row) @ drop j b0)\<rparr>)"
  have I0: "I 0 st" using b0 by (simp add: I_def fun_upd_idem)
  have step: "\<exists>s'. ?body j t = (Inr (), s') \<and> I (Suc j) s'"
    if "0 \<le> j" and j: "int j < n" and Ij: "I j t" for j t
  proof -
    from j n have jN: "j < N" by simp
    from Ij have t: "t = st\<lparr>heap := (heap st)(dr \<mapsto> map IntV (take j row) @ drop j b0)\<rparr>"
      by (simp add: I_def)
    have "?body j t = (Inr (), st\<lparr>heap := (heap st)(dr \<mapsto>
        (map IntV (take j row) @ drop j b0)[j := IntV (row ! j)])\<rparr>)"
      using s ks sr d kd dr row lr lb ne jN
      by (simp add: t bnd_def read_ptr_def read_int_def read_cell_def write_cell_def)
    then show ?thesis
      using jN lr lb int_row_step[of j row b0] by (simp add: I_def)
  qed
  from for_loop_rule[of I 0 st n ?body, OF I0 step]
  show ?thesis using n lr lb by (auto simp: I_def)
qed

lemma map_add_zip_notin:
  assumes "p \<notin> set (take k rd)"
  shows "(h ++ map_of (zip (take k rd) bs)) p = h p"
proof -
  have "map_of (zip (take k rd) bs) p = None"
    using assms by (auto simp: map_of_eq_None_iff dest: set_zip_leftD)
  then show ?thesis by (simp add: map_add_def)
qed

lemma map_add_zip_step:
  assumes "k < length rd" and "length bs = length rd" and "distinct rd"
  shows "(h ++ map_of (zip (take k rd) (take k bs)))(rd ! k \<mapsto> bs ! k) =
         h ++ map_of (zip (take (Suc k) rd) (take (Suc k) bs))"
proof -
  let ?m = "map_of (zip (take k rd) (take k bs))"
  have "rd ! k \<notin> set (take k rd)"
    using assms by (auto simp: in_set_conv_nth distinct_conv_nth)
  then have "rd ! k \<notin> dom ?m"
    by (auto dest!: map_of_SomeD set_zip_leftD)
  then have a: "[rd ! k \<mapsto> bs ! k] ++ ?m = ?m(rd ! k \<mapsto> bs ! k)"
    using map_add_upd_left[of "rd ! k" ?m Map.empty "bs ! k"] by simp
  have "take (Suc k) rd = take k rd @ [rd ! k]" "take (Suc k) bs = take k bs @ [bs ! k]"
    using assms by (simp_all add: take_Suc_conv_app_nth)
  then have "map_of (zip (take (Suc k) rd) (take (Suc k) bs)) = [rd ! k \<mapsto> bs ! k] ++ ?m"
    using assms by simp
  then show ?thesis by (simp add: a)
qed

lemma copy_cells_run:
  assumes s: "heap st s = Some (map PtrV rs)" and ls: "length rs = N"
    and d: "heap st d = Some (map PtrV rd)" and ld: "length rd = N"
    and src: "list_all2 (\<lambda>r row. heap st r = Some (map IntV row) \<and> length row = N) rs M"
    and dst: "\<And>r. r \<in> set rd \<Longrightarrow> \<exists>b. heap st r = Some b \<and> length b = N"
    and dist: "distinct rd" and ne: "s \<notin> set rd" "d \<notin> set rd" "set rs \<inter> set rd = {}"
    and n: "n = int N"
  shows "copy_cells d s n st =
         (Inr (), st\<lparr>heap := heap st ++ map_of (zip rd (map (map IntV) M))\<rparr>)"
proof -
  define BS where "BS = map (map IntV) M"
  have lM: "length M = N" using src ls by (auto dest: list_all2_lengthD)
  have lBS: "length BS = length rd" using lM ld by (simp add: BS_def)
  define I where "I = (\<lambda>k t. k \<le> N \<and>
     t = st\<lparr>heap := heap st ++ map_of (zip (take k rd) (take k BS))\<rparr>)"
  let ?inner = "\<lambda>i. for_loop n (\<lambda>j.
         bnd (read_ptr s i) (\<lambda>sr.
         bnd (read_int sr j) (\<lambda>v.
         bnd (read_ptr d i) (\<lambda>dr.
           write_cell dr j (IntV v))))) 0"
  have I0: "I 0 st" by (simp add: I_def)
  have step: "\<exists>s'. ?inner k t = (Inr (), s') \<and> I (Suc k) s'"
    if "0 \<le> k" and k: "int k < n" and Ik: "I k t" for k t
  proof -
    from k n have kN: "k < N" by simp
    from Ik have t: "t = st\<lparr>heap := heap st ++ map_of (zip (take k rd) (take k BS))\<rparr>"
      by (simp add: I_def)
    have rdk: "rd ! k \<in> set rd" using kN ld by simp
    have rsk: "rs ! k \<in> set rs" using kN ls by simp
    have nk: "rd ! k \<notin> set (take k rd)"
      using dist kN ld by (auto simp: in_set_conv_nth distinct_conv_nth)
    have nin: "p \<notin> set rd \<Longrightarrow> p \<notin> set (take k rd)" for p
      by (auto dest: in_set_takeD)
    from dst[OF rdk] obtain b0 where b0: "heap st (rd ! k) = Some b0" and lb: "length b0 = N"
      by blast
    have rowk: "heap st (rs ! k) = Some (map IntV (M ! k))" and lrow: "length (M ! k) = N"
      using src kN ls by (auto simp: list_all2_conv_all_nth)
    have hs: "heap t s = Some (map PtrV rs)" using s ne(1) by (simp add: t map_add_zip_notin nin)
    have hd: "heap t d = Some (map PtrV rd)" using d ne(2) by (simp add: t map_add_zip_notin nin)
    have hr: "heap t (rs ! k) = Some (map IntV (M ! k))"
      using rowk ne(3) rsk by (simp add: t map_add_zip_notin nin disjoint_iff)
    have hb: "heap t (rd ! k) = Some b0" using b0 nk by (simp add: t map_add_zip_notin)
    have ne3: "rd ! k \<noteq> s" "rd ! k \<noteq> d" "rd ! k \<noteq> rs ! k"
      by (metis ne(1) rdk, metis ne(2) rdk, metis ne(3) rdk rsk disjoint_iff)
    have ks: "k < length (map PtrV rs)" and kd: "k < length (map PtrV rd)"
      and ps: "map PtrV rs ! k = PtrV (rs ! k)" and pd: "map PtrV rd ! k = PtrV (rd ! k)"
      using kN ls ld by simp_all
    have "?inner k t = (Inr (), t\<lparr>heap := (heap t)(rd ! k \<mapsto> map IntV (M ! k))\<rparr>)"
      by (rule copy_row_run[OF hs ks ps hd kd pd hr lrow hb lb ne3 n])
    moreover have "BS ! k = map IntV (M ! k)" using kN lM by (simp add: BS_def)
    ultimately show ?thesis
      using kN ld lBS dist map_add_zip_step[of k rd BS "heap st"] by (simp add: I_def t)
  qed
  from for_loop_rule[of I 0 st n ?inner, OF I0 step]
  show ?thesis using n ld lBS by (auto simp: I_def copy_cells_def BS_def)
qed

lemma map_add_zip_nth:
  assumes "distinct rd" and "i < length rd" and "length bs = length rd"
  shows "(h ++ map_of (zip rd bs)) (rd ! i) = Some (bs ! i)"
  using assms by (simp add: map_add_def map_of_zip_nth)

lemma map_add_zip_other:
  assumes "p \<notin> set rd"
  shows "(h ++ map_of (zip rd bs)) p = h p"
  using map_add_zip_notin[of p "length rd" rd h bs] assms by simp

lemma owns_SomeD:
  assumes "owns st x rs M"
  shows "0 \<le> size' x" and "length rs = nat (size' x)" and "length M = nat (size' x)"
    and "heap st (matrix x) = Some (map PtrV rs)" and "distinct rs" and "matrix x \<notin> set rs"
    and "i < nat (size' x) \<Longrightarrow> heap st (rs ! i) = Some (map IntV (M ! i))"
    and "i < nat (size' x) \<Longrightarrow> length (M ! i) = nat (size' x)"
  using assms by (auto simp: owns_def list_all2_conv_all_nth)

lemma owns_frame:
  assumes "owns st x rs M" and "\<And>p. p \<in> footprint x rs \<Longrightarrow> heap st' p = heap st p"
  shows "owns st' x rs M"
proof -
  have "heap st' (matrix x) = heap st (matrix x)" using assms(2) by (simp add: footprint_def)
  moreover have "heap st' (rs ! i) = heap st (rs ! i)" if "i < length rs" for i
    using assms(2)[of "rs ! i"] that by (simp add: footprint_def)
  ultimately show ?thesis
    using assms(1) by (auto simp: owns_def list_all2_conv_all_nth)
qed

lemma owns_below:
  assumes "owns st x rs M" and "heap_ok st" and "p \<in> footprint x rs"
  shows "0 < p \<and> p < nxt st"
proof -
  have "p \<in> dom (heap st)"
    using assms(1,3) by (auto simp: footprint_def owns_def list_all2_conv_all_nth in_set_conv_nth)
  then show ?thesis using assms(2) by (auto simp: heap_ok_def)
qed

lemma StudentM_copy_run:
  assumes y: "mstudents st s = Some y" and own: "owns st y rs M" and ok: "heap_ok st"
    and mem: "nat (size' y) + nat (size' y) * nat (size' y) \<le> avail st"
  defines "N \<equiv> nat (size' y)"
  defines "rd \<equiv> [Suc (nxt st)..<Suc (nxt st) + N]"
  defines "x' \<equiv> \<lparr>mid = mid y, mage = mage y, mname = mname y, fees = fees y,
                  size' = size' y, matrix = nxt st\<rparr>"
  shows "\<exists>st'. StudentM_copy s st = (Inr (Suc (nxt st) + N), st') \<and>
           mstudents st' = (mstudents st)(Suc (nxt st) + N \<mapsto> x') \<and>
           students st' = students st \<and> population st' = population st \<and>
           nxt st' = Suc (Suc (nxt st)) + N \<and> avail st' = avail st - N - N * N \<and>
           owns st' x' rd M \<and>
           (\<forall>p. p < nxt st \<longrightarrow> heap st' p = heap st p) \<and>
           dom (heap st') = dom (heap st) \<union> footprint x' rd"
proof -
  define a where "a = nxt st"
  note o = owns_SomeD[OF own, folded N_def]
  have n: "size' y = int N" using o(1) by (simp add: N_def)
  define st1 where "st1 = st\<lparr>heap := (heap st)(a \<mapsto> replicate N Indet), nxt := Suc a,
      avail := avail st - N\<rparr>"
  have new: "new_arr (size' y) (replicate (nat (size' y)) Indet) st = (Inr a, st1)"
    using mem[folded N_def] o(1) by (simp add: new_arr_def st1_def a_def N_def[symmetric])
  define st2 where "st2 = st1\<lparr>heap := alloc_heap (heap st1) a (nxt st1) N N,
      nxt := nxt st1 + N, avail := avail st1 - N * N\<rparr>"
  have al: "alloc_rows a (size' y) st1 = (Inr (), st2)"
    unfolding st2_def
    by (rule alloc_rows_run) (use mem[folded N_def] n in \<open>simp_all add: st1_def\<close>)
  have rd: "rd = [Suc a..<Suc a + N]" by (simp add: rd_def a_def)
  have below: "p \<in> footprint y rs \<Longrightarrow> p < a" for p
    using owns_below[OF own ok] by (simp add: a_def)
  have my: "matrix y < a" and rsy: "\<And>r. r \<in> set rs \<Longrightarrow> r < a"
    using below by (simp_all add: footprint_def)
  have h2: "heap st2 p = (if p = a then Some (map PtrV rd)
       else if Suc a \<le> p \<and> p < Suc a + N then Some (replicate N Indet) else heap st p)" for p
    by (simp add: st2_def st1_def alloc_heap_def rd)
  define st3 where "st3 = st2\<lparr>heap := heap st2 ++ map_of (zip rd (map (map IntV) M))\<rparr>"
  have cp: "copy_cells a (matrix y) (size' y) st2 = (Inr (), st3)"
    unfolding st3_def
  proof (rule copy_cells_run[where rs = rs and rd = rd and N = N])
    show "heap st2 (matrix y) = Some (map PtrV rs)" using my o(4) by (simp add: h2)
    show "length rs = N" by (rule o(2))
    show "heap st2 a = Some (map PtrV rd)" by (simp add: h2)
    show "length rd = N" by (simp add: rd)
    have rsi: "rs ! i < a" if "i < N" for i
      using rsy[of "rs ! i"] that o(2) by simp
    have "heap st2 (rs ! i) = heap st (rs ! i)" if "i < N" for i
      using rsi[OF that] by (simp add: h2)
    then show "list_all2 (\<lambda>r row. heap st2 r = Some (map IntV row) \<and> length row = N) rs M"
      using o(2,3,7,8) by (simp add: list_all2_conv_all_nth)
    show "\<exists>b. heap st2 r = Some b \<and> length b = N" if "r \<in> set rd" for r
      using that by (auto simp: h2 rd)
    show "distinct rd" by (simp add: rd)
    show "matrix y \<notin> set rd" using my by (auto simp: rd)
    show "a \<notin> set rd" by (auto simp: rd)
    show "set rs \<inter> set rd = {}" using rsy by (fastforce simp: rd)
    show "size' y = int N" by (rule n)
  qed
  have h3a: "heap st3 a = Some (map PtrV rd)"
    by (simp add: st3_def map_add_zip_other h2 rd)
  have h3r: "heap st3 (rd ! i) = Some (map IntV (M ! i))" if "i < N" for i
    using that o(3) by (simp add: st3_def map_add_zip_nth rd)
  have h3o: "heap st3 p = heap st p" if "p < a" for p
    using that by (simp add: st3_def map_add_zip_other h2 rd)
  have dom3: "dom (heap st3) = dom (heap st) \<union> insert a (set rd)"
  proof -
    have "dom (heap st2) = dom (heap st) \<union> insert a (set rd)"
      by (auto simp: h2 rd dom_def)
    moreover have "dom (map_of (zip rd (map (map IntV) M))) = set rd"
      using o(3) by (simp add: rd)
    ultimately show ?thesis by (auto simp: st3_def)
  qed
  define st4 where "st4 = st3\<lparr>nxt := Suc (nxt st3),
      mstudents := (mstudents st3)(nxt st3 \<mapsto> x')\<rparr>"
  have run: "StudentM_copy s st = (Inr (Suc a + N), st4)"
    using y new al cp
    by (simp add: StudentM_copy_def the_mstudent_def bnd_def place_mstudent_def st4_def
        x'_def a_def st3_def st2_def st1_def)
  have own': "owns st4 x' rd M"
    using o(1,3,8) h3a h3r
    by (auto simp: owns_def x'_def st4_def a_def[symmetric] list_all2_conv_all_nth rd N_def)
  show ?thesis
    using run own' h3o dom3
    by (auto simp: st4_def st3_def st2_def st1_def a_def footprint_def x'_def rd_def)
qed

lemma StudentM_set_run:
  assumes x: "mstudents st a = Some x" and own: "owns st x rs M"
    and i: "0 \<le> i" "i < size' x" and j: "0 \<le> j" "j < size' x"
  shows "StudentM_set a i j v st =
     (Inr (), st\<lparr>heap := (heap st)(rs ! nat i \<mapsto> map IntV ((M ! nat i)[nat j := v]))\<rparr>)"
proof -
  note o = owns_SomeD[OF own]
  have ni: "nat i < nat (size' x)" and nj: "nat j < nat (size' x)" using i j by simp_all
  show ?thesis
    using x i j ni nj o(2,4) o(7)[OF ni] o(8)[OF ni]
    by (simp add: StudentM_set_def the_mstudent_def bnd_def read_ptr_def read_cell_def
        subscript_set_def write_cell_def map_update)
qed

lemma StudentM_get_run:
  assumes x: "mstudents st a = Some x" and own: "owns st x rs M"
    and i: "0 \<le> i" "i < size' x" and j: "0 \<le> j" "j < size' x"
  shows "StudentM_get a i j st = (Inr (M ! nat i ! nat j), st)"
proof -
  note o = owns_SomeD[OF own]
  have ni: "nat i < nat (size' x)" and nj: "nat j < nat (size' x)" using i j by simp_all
  show ?thesis
    using x i j ni nj o(2,4) o(7)[OF ni] o(8)[OF ni]
    by (simp add: StudentM_get_def the_mstudent_def bnd_def read_ptr_def read_cell_def
        subscript_get_def read_int_def)
qed

lemma owns_update:
  assumes own: "owns st x rs M" and i: "i < nat (size' x)" and j: "j < nat (size' x)"
  shows "owns (st\<lparr>heap := (heap st)(rs ! i \<mapsto> map IntV ((M ! i)[j := v]))\<rparr>) x rs
           (M[i := (M ! i)[j := v]])"
proof -
  note o = owns_SomeD[OF own]
  have d: "distinct rs" and m: "matrix x \<notin> set rs" by (rule o)+
  have ne: "rs ! k \<noteq> rs ! i" if "k < length rs" "k \<noteq> i" for k
    using d that i o(2) by (simp add: nth_eq_iff_index_eq)
  have mi: "matrix x \<noteq> rs ! i" using m i o(2) by (metis nth_mem)
  show ?thesis
    using own i mi ne
    by (auto simp: owns_def list_all2_conv_all_nth nth_list_update)
qed

lemma owns_other:
  assumes "owns st z rz Mz" and "p \<notin> footprint z rz"
  shows "owns (st\<lparr>heap := (heap st)(p \<mapsto> b)\<rparr>) z rz Mz"
  using assms(1) by (rule owns_frame) (use assms(2) in auto)

lemma fill_matrix_run:
  assumes a: "heap t a = Some (replicate N Indet)" and alt: "a < nxt t"
    and sm: "heap t sm = Some (map PtrV rs)" and smlt: "sm < nxt t" and sma: "sm \<noteq> a"
    and rows: "list_all2 (\<lambda>r row. heap t r = Some (map IntV row) \<and> length row = N) rs M"
    and lrs: "length rs = N"
    and rlt': "\<forall>r\<in>set rs. r < nxt t \<and> r \<noteq> a"
    and mem: "N * N \<le> avail t" and n: "n = int N"
  defines "rd \<equiv> [nxt t..<nxt t + N]"
  defines "t1 \<equiv> t\<lparr>heap := alloc_heap (heap t) a (nxt t) N N, nxt := nxt t + N,
                   avail := avail t - N * N\<rparr>"
  defines "t2 \<equiv> t1\<lparr>heap := heap t1 ++ map_of (zip rd (map (map IntV) M))\<rparr>"
  shows "alloc_rows a n t = (Inr (), t1)" and "copy_cells a sm n t1 = (Inr (), t2)"
    and "heap t2 a = Some (map PtrV rd)"
    and "\<And>i. i < N \<Longrightarrow> heap t2 (rd ! i) = Some (map IntV (M ! i))"
    and "\<And>p. p < nxt t \<Longrightarrow> p \<noteq> a \<Longrightarrow> heap t2 p = heap t p"
    and "dom (heap t2) = dom (heap t) \<union> set rd"
proof -
  have lM: "length M = N" using rows lrs by (auto dest: list_all2_lengthD)
  have rlt: "r < nxt t \<and> r \<noteq> a" if "r \<in> set rs" for r using rlt' that by blast
  show al: "alloc_rows a n t = (Inr (), t1)"
    unfolding t1_def by (rule alloc_rows_run[OF a n mem alt])
  have h1: "heap t1 p = (if p = a then Some (map PtrV rd)
       else if nxt t \<le> p \<and> p < nxt t + N then Some (replicate N Indet) else heap t p)" for p
    by (simp add: t1_def alloc_heap_def rd_def)
  have rsi: "rs ! i < nxt t \<and> rs ! i \<noteq> a" if "i < N" for i
    using rlt[of "rs ! i"] that lrs by simp
  show "copy_cells a sm n t1 = (Inr (), t2)"
    unfolding t2_def
  proof (rule copy_cells_run[where rs = rs and rd = rd and N = N])
    show "heap t1 sm = Some (map PtrV rs)" using sm smlt sma by (simp add: h1)
    show "length rs = N" by (rule lrs)
    show "heap t1 a = Some (map PtrV rd)" by (simp add: h1)
    show "length rd = N" by (simp add: rd_def)
    have "heap t1 (rs ! i) = heap t (rs ! i)" if "i < N" for i
      using rsi[OF that] by (simp add: h1)
    then show "list_all2 (\<lambda>r row. heap t1 r = Some (map IntV row) \<and> length row = N) rs M"
      using rows lrs by (simp add: list_all2_conv_all_nth)
    show "\<exists>b. heap t1 r = Some b \<and> length b = N" if "r \<in> set rd" for r
      using that alt by (auto simp: h1 rd_def)
    show "distinct rd" by (simp add: rd_def)
    show "sm \<notin> set rd" using smlt by (auto simp: rd_def)
    show "a \<notin> set rd" using alt by (auto simp: rd_def)
    show "set rs \<inter> set rd = {}" using rlt by (fastforce simp: rd_def)
    show "n = int N" by (rule n)
  qed
  have ard: "a \<notin> set rd" using alt by (auto simp: rd_def)
  show "heap t2 a = Some (map PtrV rd)"
    using ard by (simp add: t2_def map_add_zip_other h1)
  have drd: "distinct rd" and lrd: "length rd = N" by (simp_all add: rd_def)
  show "heap t2 (rd ! i) = Some (map IntV (M ! i))" if "i < N" for i
    using that by (simp add: t2_def map_add_zip_nth drd lrd lM)
  show "heap t2 p = heap t p" if "p < nxt t" "p \<noteq> a" for p
    using that by (simp add: t2_def map_add_zip_other h1 rd_def)
  have "dom (heap t1) = dom (heap t) \<union> set rd"
    using a by (auto simp: h1 rd_def dom_def)
  moreover have "dom (map_of (zip rd (map (map IntV) M))) = set rd"
    using lM by (simp add: rd_def)
  ultimately show "dom (heap t2) = dom (heap t) \<union> set rd" by (auto simp: t2_def)
qed

lemma restrict_step:
  assumes "k < length rs"
  shows "(h |` (- set (take k rs)))(rs ! k := None) = h |` (- set (take (Suc k) rs))"
  using assms by (auto simp: restrict_map_def fun_eq_iff take_Suc_conv_app_nth)

lemma free_matrix_run:
  assumes own: "owns st x rs M" and ok: "heap_ok st"
  defines "N \<equiv> nat (size' x)"
  shows "free_matrix (matrix x) (size' x) st =
     (Inr (), st\<lparr>heap := heap st |` (- footprint x rs), avail := avail st + N * N + N\<rparr>)"
proof -
  note o = owns_SomeD[OF own, folded N_def]
  have n: "size' x = int N" using o(1) by (simp add: N_def)
  have m0: "matrix x \<noteq> 0"
    using owns_below[OF own ok, of "matrix x"] by (simp add: footprint_def)
  have r0: "rs ! k \<noteq> 0" if "k < N" for k
    using owns_below[OF own ok, of "rs ! k"] that o(2) by (simp add: footprint_def)
  let ?body = "\<lambda>i. bnd (read_ptr (matrix x) i) delete_arr"
  define I where "I = (\<lambda>k t. k \<le> N \<and>
     t = st\<lparr>heap := heap st |` (- set (take k rs)), avail := avail st + k * N\<rparr>)"
  have I0: "I 0 st" by (simp add: I_def restrict_map_def)
  have step: "\<exists>s'. ?body k t = (Inr (), s') \<and> I (Suc k) s'"
    if "0 \<le> k" and k: "int k < size' x" and Ik: "I k t" for k t
  proof -
    from k n have kN: "k < N" by simp
    from Ik have t: "t = st\<lparr>heap := heap st |` (- set (take k rs)),
        avail := avail st + k * N\<rparr>" by (simp add: I_def)
    have nk: "rs ! k \<notin> set (take k rs)"
      using o(5) kN o(2) by (auto simp: in_set_conv_nth distinct_conv_nth)
    have mk: "matrix x \<notin> set (take k rs)" using o(6) by (auto dest: in_set_takeD)
    have hm: "heap t (matrix x) = Some (map PtrV rs)" using o(4) mk by (simp add: t)
    have hr: "heap t (rs ! k) = Some (map IntV (M ! k))" using o(7)[OF kN] nk by (simp add: t)
    have "?body k t = (Inr (), t\<lparr>heap := (heap t)(rs ! k := None), avail := avail t + N\<rparr>)"
      using hm hr kN o(2) r0[OF kN] o(8)[OF kN]
      by (simp add: bnd_def read_ptr_def read_cell_def delete_arr_def)
    then show ?thesis
      using kN o(2) restrict_step[of k rs "heap st"] by (simp add: I_def t)
  qed
  from for_loop_rule[of I 0 st "size' x" ?body, OF I0 step]
  have loop: "for_loop (size' x) ?body 0 st =
      (Inr (), st\<lparr>heap := heap st |` (- set rs), avail := avail st + N * N\<rparr>)"
    using n o(2) by (auto simp: I_def)
  have "heap st |` (- footprint x rs) = (heap st |` (- set rs))(matrix x := None)"
    by (auto simp: restrict_map_def fun_eq_iff footprint_def)
  then show ?thesis
    using loop m0 o(4,6) o(2)
    by (simp add: free_matrix_def bnd_def delete_arr_def)
qed

lemma StudentM_assign_same_size:
  assumes x: "mstudents st this = Some x" and y: "mstudents st s = Some y"
    and ownx: "owns st x rx Mx" and owny: "owns st y ry My"
    and disj: "footprint x rx \<inter> footprint y ry = {}"
    and ne: "this \<noteq> s" and eq: "size' x = size' y"
  defines "x' \<equiv> x\<lparr>mage := mage y, mname := mname y, fees := fees y\<rparr>"
  defines "st' \<equiv> st\<lparr>mstudents := (mstudents st)(this \<mapsto> x'),
                     heap := heap st ++ map_of (zip rx (map (map IntV) My))\<rparr>"
  shows "StudentM_assign this s st = (Inr (), st')"
    and "owns st' x' rx My" and "owns st' y ry My"
proof -
  note ox = owns_SomeD[OF ownx] and oy = owns_SomeD[OF owny]
  define N where "N = nat (size' x)"
  have n: "size' x = int N" using ox(1) by (simp add: N_def)
  define st0 where "st0 = st\<lparr>mstudents := (mstudents st)(this \<mapsto> x')\<rparr>"
  have dx: "matrix x \<noteq> matrix y" "matrix y \<notin> set rx" "matrix x \<notin> set ry" "set ry \<inter> set rx = {}"
    using disj by (auto simp: footprint_def)
  have cp: "copy_cells (matrix x) (matrix y) (size' x) st0 =
      (Inr (), st0\<lparr>heap := heap st0 ++ map_of (zip rx (map (map IntV) My))\<rparr>)"
  proof (rule copy_cells_run[where rs = ry and rd = rx and N = N])
    show "heap st0 (matrix y) = Some (map PtrV ry)" using oy(4) by (simp add: st0_def)
    show "length ry = N" using oy(2) eq by (simp add: N_def)
    show "heap st0 (matrix x) = Some (map PtrV rx)" using ox(4) by (simp add: st0_def)
    show "length rx = N" using ox(2) by (simp add: N_def)
    show "list_all2 (\<lambda>r row. heap st0 r = Some (map IntV row) \<and> length row = N) ry My"
      using owny eq by (simp add: owns_def st0_def N_def)
    show "\<exists>b. heap st0 r = Some b \<and> length b = N" if "r \<in> set rx" for r
    proof -
      from that obtain i where "i < length rx" "r = rx ! i" by (auto simp: in_set_conv_nth)
      then show ?thesis using ox(2) ox(7)[of i] ox(8)[of i] by (simp add: st0_def N_def)
    qed
    show "distinct rx" by (rule ox(5))
    show "matrix y \<notin> set rx" by (rule dx(2))
    show "matrix x \<notin> set rx" by (rule ox(6))
    show "set ry \<inter> set rx = {}" by (rule dx(4))
    show "size' x = int N" by (rule n)
  qed
  show run: "StudentM_assign this s st = (Inr (), st')"
    using x y ne eq cp
    by (simp add: StudentM_assign_def bnd_def ret_def the_mstudent_def modify_mstudent_def
        st0_def st'_def x'_def)
  have lMy: "length (map (map IntV) My) = length rx" using oy(3) ox(2) eq by simp
  have "owns st' x' rx My"
    unfolding owns_def list_all2_conv_all_nth
    using ox(1,2,5,6) oy(3) eq ox(4) oy(8) map_add_zip_nth[OF ox(5) _ lMy, of _ "heap st"]
    by (auto simp: st'_def x'_def map_add_zip_other)
  then show "owns st' x' rx My" .
  show "owns st' y ry My"
  proof (rule owns_frame[OF owny])
    fix p assume "p \<in> footprint y ry"
    then have "p \<notin> set rx" using disj by (auto simp: footprint_def)
    then show "heap st' p = heap st p" by (simp add: st'_def map_add_zip_other)
  qed
qed

lemma StudentM_assign_resize:
  assumes x: "mstudents st this = Some x" and y: "mstudents st s = Some y"
    and ownx: "owns st x rx Mx" and owny: "owns st y ry My"
    and disj: "footprint x rx \<inter> footprint y ry = {}"
    and ne: "this \<noteq> s" and neq: "size' x \<noteq> size' y" and ok: "heap_ok st"
    and mem: "nat (size' y) + nat (size' y) * nat (size' y) \<le>
              avail st + nat (size' x) * nat (size' x) + nat (size' x)"
  defines "x' \<equiv> x\<lparr>mage := mage y, mname := mname y, fees := fees y,
                    size' := size' y, matrix := nxt st\<rparr>"
  defines "rd \<equiv> [Suc (nxt st)..<Suc (nxt st) + nat (size' y)]"
  shows "\<exists>st'. StudentM_assign this s st = (Inr (), st') \<and>
           mstudents st' = (mstudents st)(this \<mapsto> x') \<and>
           students st' = students st \<and> population st' = population st \<and>
           nxt st' = Suc (nxt st) + nat (size' y) \<and>
           avail st' + (nat (size' y) + nat (size' y) * nat (size' y)) =
             avail st + nat (size' x) * nat (size' x) + nat (size' x) \<and>
           owns st' x' rd My \<and> owns st' y ry My \<and>
           (\<forall>p. p < nxt st \<longrightarrow> p \<notin> footprint x rx \<longrightarrow> heap st' p = heap st p) \<and>
           dom (heap st') = dom (heap st) - footprint x rx \<union> footprint x' rd"
proof -
  note ox = owns_SomeD[OF ownx] and oy = owns_SomeD[OF owny]
  define N where "N = nat (size' y)"
  define K where "K = nat (size' x)"
  define a where "a = nxt st"
  have n: "size' y = int N" using oy(1) by (simp add: N_def)
  define x1 where "x1 = x\<lparr>mage := mage y, mname := mname y, fees := fees y\<rparr>"
  define st0 where "st0 = st\<lparr>mstudents := (mstudents st)(this \<mapsto> x1)\<rparr>"
  have own0: "owns st0 x1 rx Mx" using ownx by (simp add: owns_def st0_def x1_def)
  have ok0: "heap_ok st0" using ok x by (auto simp: heap_ok_def st0_def)
  define stf where "stf = st0\<lparr>heap := heap st0 |` (- footprint x1 rx),
      avail := avail st0 + K * K + K\<rparr>"
  have fr: "free_matrix (matrix x1) (size' x1) st0 = (Inr (), stf)"
    using free_matrix_run[OF own0 ok0] by (simp add: stf_def K_def x1_def)
  have F: "footprint x1 rx = footprint x rx" by (simp add: footprint_def x1_def)
  define stf2 where "stf2 = stf\<lparr>mstudents := (mstudents stf)(this \<mapsto> x1\<lparr>size' := size' y\<rparr>)\<rparr>"
  define stf3 where "stf3 = stf2\<lparr>heap := (heap stf2)(a \<mapsto> replicate N Indet), nxt := Suc a,
      avail := avail stf2 - N\<rparr>"
  define t where "t = stf3\<lparr>mstudents := (mstudents stf3)(this \<mapsto> x')\<rparr>"
  have memf: "N + N * N \<le> avail stf"
    using mem by (simp add: stf_def st0_def N_def K_def)
  have belowx: "p \<in> footprint x rx \<Longrightarrow> p < a" for p
    using owns_below[OF ownx ok] by (simp add: a_def)
  have belowy: "p \<in> footprint y ry \<Longrightarrow> p < a" for p
    using owns_below[OF owny ok] by (simp add: a_def)
  have ynotx: "p \<in> footprint y ry \<Longrightarrow> p \<notin> footprint x rx" for p
    using disj by auto
  have ht: "heap t p = (if p = a then Some (replicate N Indet)
       else if p \<in> footprint x rx then None else heap st p)" for p
    by (simp add: t_def stf3_def stf2_def stf_def st0_def F restrict_map_def)
  have nt: "nxt t = Suc a" and avt: "avail t = avail st + K * K + K - N"
    by (simp_all add: t_def stf3_def stf2_def stf_def st0_def)
  have my: "matrix y \<in> footprint y ry" by (simp add: footprint_def)
  have ryi: "ry ! i \<in> footprint y ry" if "i < N" for i
    using that oy(2) by (simp add: footprint_def N_def)
  let ?t1 = "t\<lparr>heap := alloc_heap (heap t) a (nxt t) N N, nxt := nxt t + N,
                   avail := avail t - N * N\<rparr>"
  let ?t2 = "?t1\<lparr>heap := heap ?t1 ++ map_of (zip [nxt t..<nxt t + N] (map (map IntV) My))\<rparr>"
  have p1: "heap t a = Some (replicate N Indet)" by (simp add: ht)
  have p2: "a < nxt t" by (simp add: nt)
  have p3: "heap t (matrix y) = Some (map PtrV ry)"
    using belowy[OF my] ynotx[OF my] oy(4) by (simp add: ht)
  have p4: "matrix y < nxt t" using belowy[OF my] by (simp add: nt)
  have p5: "matrix y \<noteq> a" using belowy[OF my] by simp
  have "heap t (ry ! i) = heap st (ry ! i)" if "i < N" for i
    using belowy[OF ryi[OF that]] ynotx[OF ryi[OF that]] by (simp add: ht)
  then have p6: "list_all2 (\<lambda>r row. heap t r = Some (map IntV row) \<and> length row = N) ry My"
    using owny by (simp add: owns_def list_all2_conv_all_nth N_def)
  have p7: "length ry = N" using oy(2) by (simp add: N_def)
  have p8: "\<forall>r\<in>set ry. r < nxt t \<and> r \<noteq> a"
  proof
    fix r assume "r \<in> set ry"
    then have "r < a" using belowy[of r] by (simp add: footprint_def)
    then show "r < nxt t \<and> r \<noteq> a" by (simp add: nt)
  qed
  have p9: "N * N \<le> avail t" using memf by (simp add: avt stf_def st0_def)
  define t1 where "t1 = ?t1"
  define t2 where "t2 = t1\<lparr>heap := heap t1 ++ map_of (zip [nxt t..<nxt t + N] (map (map IntV) My))\<rparr>"
  note fill = fill_matrix_run[OF p1 p2 p3 p4 p5 p6 p7 p8 p9 n, folded t1_def, folded t2_def]
  have e1: "the_mstudent s st = (Inr y, st)" using y by (simp add: the_mstudent_def)
  have e2: "modify_mstudent this (\<lambda>x. x\<lparr>mage := mage y, mname := mname y, fees := fees y\<rparr>) st =
      (Inr (), st0)"
    using x by (simp add: modify_mstudent_def st0_def x1_def)
  have e3: "the_mstudent this st0 = (Inr x1, st0)" by (simp add: the_mstudent_def st0_def)
  have e4: "modify_mstudent this (\<lambda>x. x\<lparr>size' := size' y\<rparr>) stf = (Inr (), stf2)"
    by (simp add: modify_mstudent_def stf2_def stf_def st0_def)
  have e5: "new_arr (size' y) (replicate (nat (size' y)) Indet) stf2 = (Inr a, stf3)"
    using memf oy(1)
    by (simp add: new_arr_def stf3_def stf2_def N_def[symmetric] a_def stf_def st0_def)
  have e6: "modify_mstudent this (\<lambda>x. x\<lparr>matrix := a\<rparr>) stf3 = (Inr (), t)"
    by (simp add: modify_mstudent_def t_def stf3_def stf2_def x'_def x1_def a_def)
  have e7: "the_mstudent this t1 = (Inr x', t1)"
    by (simp add: the_mstudent_def t_def t1_def)
  have sz: "size' x1 \<noteq> size' y" "size' x' = size' y" "matrix x' = a"
    using neq by (simp_all add: x1_def x'_def a_def)
  have blk: "bnd (free_matrix (matrix x1) (size' x1)) (\<lambda>_.
               bnd (modify_mstudent this (\<lambda>x. x\<lparr>size' := size' y\<rparr>)) (\<lambda>_.
               bnd (new_arr (size' y) (replicate (nat (size' y)) Indet)) (\<lambda>m.
               bnd (modify_mstudent this (\<lambda>x. x\<lparr>matrix := m\<rparr>)) (\<lambda>_.
                 alloc_rows m (size' y))))) st0 = (Inr (), t1)"
    by (simp add: bnd_def fr e4 e5 e6 fill(1))
  have run: "StudentM_assign this s st = (Inr (), t2)"
    unfolding StudentM_assign_def
    by (simp add: ne bnd_def[of "the_mstudent s"] bnd_def[of "modify_mstudent this _"]
        bnd_def[of "the_mstudent this"] bnd_def[of "If _ _ _"]
        bnd_def[of "bnd (free_matrix _ _) _"] e1 e2 e3 sz(1) blk e7 sz(2,3) fill(2))
  have rdeq: "rd = [nxt t..<nxt t + N]" by (simp add: rd_def nt a_def N_def)
  have own': "owns t2 x' rd My"
    unfolding owns_def list_all2_conv_all_nth
    using oy(1,3,8) fill(3,4)
    by (auto simp: x'_def rdeq a_def[symmetric] N_def[symmetric] nt simp del: upt_Suc)
  have keep: "heap t2 p = heap st p" if "p < a" "p \<notin> footprint x rx" for p
    using fill(5)[of p] that by (simp add: nt ht)
  have owny': "owns t2 y ry My"
    by (rule owns_frame[OF owny]) (use keep belowy ynotx in auto)
  have domt: "dom (heap t) = insert a (dom (heap st) - footprint x rx)"
    by (auto simp: ht dom_def)
  have dom': "dom (heap t2) = dom (heap st) - footprint x rx \<union> footprint x' rd"
    unfolding fill(6) domt by (auto simp: footprint_def x'_def rdeq a_def)
  show ?thesis
  proof (intro exI[of _ t2] conjI)
    show "StudentM_assign this s st = (Inr (), t2)" by (rule run)
    show "mstudents t2 = (mstudents st)(this \<mapsto> x')"
      by (simp add: t2_def t1_def t_def stf3_def stf2_def stf_def st0_def)
    show "students t2 = students st" "population t2 = population st"
      by (simp_all add: t2_def t1_def t_def stf3_def stf2_def stf_def st0_def)
    show "nxt t2 = Suc (nxt st) + nat (size' y)"
      by (simp add: t2_def t1_def nt a_def N_def)
    show "avail t2 + (nat (size' y) + nat (size' y) * nat (size' y)) =
             avail st + nat (size' x) * nat (size' x) + nat (size' x)"
      using mem by (simp add: t2_def t1_def avt N_def K_def)
    show "owns t2 x' rd My" by (rule own')
    show "owns t2 y ry My" by (rule owny')
    show "\<forall>p. p < nxt st \<longrightarrow> p \<notin> footprint x rx \<longrightarrow> heap t2 p = heap st p"
      using keep by (simp add: a_def)
    show "dom (heap t2) = dom (heap st) - footprint x rx \<union> footprint x' rd" by (rule dom')
  qed
qed

lemma StudentM_assign_valid:
  assumes ok: "heap_ok st"
    and x: "mstudents st this = Some x" and y: "mstudents st s = Some y"
    and ownx: "owns st x rx Mx" and owny: "owns st y ry My"
    and disj: "footprint x rx \<inter> footprint y ry = {}" and ne: "this \<noteq> s"
    and mem: "nat (size' y) + nat (size' y) * nat (size' y) \<le>
              avail st + nat (size' x) * nat (size' x) + nat (size' x)"
  shows "\<exists>st' x' rs'.
     StudentM_assign this s st = (Inr (), st') \<and>
     mstudents st' = (mstudents st)(this \<mapsto> x') \<and> students st' = students st \<and>
     x' = x\<lparr>mage := mage y, mname := mname y, fees := fees y, size' := size' y,
            matrix := matrix x'\<rparr> \<and>
     owns st' x' rs' My \<and>
     (\<forall>w rw Mw. owns st w rw Mw \<and> footprint w rw \<inter> footprint x rx = {} \<longrightarrow> owns st' w rw Mw) \<and>
     (size' x \<noteq> size' y \<longrightarrow> (\<forall>p\<in>footprint x rx. heap st' p = None)) \<and>
     footprint x' rs' \<inter> footprint y ry = {}"
proof (cases "size' x = size' y")
  case True
  define x' where "x' = x\<lparr>mage := mage y, mname := mname y, fees := fees y\<rparr>"
  define st' where "st' = st\<lparr>mstudents := (mstudents st)(this \<mapsto> x'),
                     heap := heap st ++ map_of (zip rx (map (map IntV) My))\<rparr>"
  note r = StudentM_assign_same_size[OF x y ownx owny disj ne True, folded x'_def, folded st'_def]
  have frame: "owns st' w rw Mw" if "owns st w rw Mw" "footprint w rw \<inter> footprint x rx = {}"
    for w rw Mw
  proof (rule owns_frame[OF that(1)])
    fix p assume "p \<in> footprint w rw"
    then have "p \<notin> set rx" using that(2) by (auto simp: footprint_def)
    then show "heap st' p = heap st p" by (simp add: st'_def map_add_zip_other)
  qed
  have fx: "footprint x' rx = footprint x rx" by (simp add: footprint_def x'_def)
  show ?thesis
    apply (rule exI[of _ st'], rule exI[of _ x'], rule exI[of _ rx])
    using r frame True disj
    apply (simp add: fx)
    apply (simp add: st'_def x'_def)
    done
next
  case False
  define x' where "x' = x\<lparr>mage := mage y, mname := mname y, fees := fees y,
                    size' := size' y, matrix := nxt st\<rparr>"
  define rd where "rd = [Suc (nxt st)..<Suc (nxt st) + nat (size' y)]"
  from StudentM_assign_resize[OF x y ownx owny disj ne False ok mem, folded x'_def rd_def]
  obtain st' where run: "StudentM_assign this s st = (Inr (), st')"
    and ms: "mstudents st' = (mstudents st)(this \<mapsto> x')" and ss: "students st' = students st"
    and own': "owns st' x' rd My"
    and keep: "\<And>p. p < nxt st \<Longrightarrow> p \<notin> footprint x rx \<Longrightarrow> heap st' p = heap st p"
    and dm: "dom (heap st') = dom (heap st) - footprint x rx \<union> footprint x' rd"
    by (elim exE conjE) (rule that, simp_all)
  have frame: "owns st' w rw Mw" if "owns st w rw Mw" "footprint w rw \<inter> footprint x rx = {}"
    for w rw Mw
  proof (rule owns_frame[OF that(1)])
    fix p assume p: "p \<in> footprint w rw"
    then have "p < nxt st" using owns_below[OF that(1) ok] by simp
    moreover have "p \<notin> footprint x rx" using p that(2) by auto
    ultimately show "heap st' p = heap st p" by (rule keep)
  qed
  have above: "p \<in> footprint x' rd \<Longrightarrow> nxt st \<le> p" for p
    by (auto simp: footprint_def x'_def rd_def)
  have belowx: "p \<in> footprint x rx \<Longrightarrow> p < nxt st" for p
    using owns_below[OF ownx ok] by simp
  have belowy: "p \<in> footprint y ry \<Longrightarrow> p < nxt st" for p
    using owns_below[OF owny ok] by simp
  have gone: "heap st' p = None" if "p \<in> footprint x rx" for p
  proof -
    have "p \<notin> footprint x' rd" using above[of p] belowx[OF that] by auto
    then have "p \<notin> dom (heap st')" using that unfolding dm by simp
    then show ?thesis by auto
  qed
  have d': "footprint x' rd \<inter> footprint y ry = {}"
    using above belowy by fastforce
  show ?thesis
    apply (rule exI[of _ st'], rule exI[of _ x'], rule exI[of _ rd])
    using run ms ss own' frame gone d'
    apply simp
    apply (simp add: x'_def)
    done
qed

lemma StudentM_out_of_range:
  assumes x: "mstudents st a = Some x" and own: "owns st x rs M"
    and ij: "\<not> (0 \<le> i \<and> i < size' x \<and> 0 \<le> j \<and> j < size' x)"
  shows "StudentM_get a i j st = (Inl UndefinedBehavior, st) \<and>
         StudentM_set a i j v st = (Inl UndefinedBehavior, st)"
proof -
  note o = owns_SomeD[OF own]
  consider "i < 0" | "0 \<le> i" "size' x \<le> i" | "0 \<le> i" "i < size' x" "j < 0"
    | "0 \<le> i" "i < size' x" "0 \<le> j" "size' x \<le> j"
    using ij by linarith
  then show ?thesis
  proof cases
    case 1
    then show ?thesis
      using x by (simp add: StudentM_get_def StudentM_set_def the_mstudent_def bnd_def throw_def)
  next
    case 2
    then have "\<not> nat i < length (map PtrV rs)" using o(1,2) by simp
    then show ?thesis
      using x 2 o(4)
      by (simp add: StudentM_get_def StudentM_set_def the_mstudent_def bnd_def
          read_ptr_def read_cell_def)
  next
    case 3
    then have ni: "nat i < nat (size' x)" by simp
    show ?thesis
      using x 3 ni o(2,4)
      by (simp add: StudentM_get_def StudentM_set_def the_mstudent_def bnd_def
          read_ptr_def read_cell_def subscript_get_def subscript_set_def)
  next
    case 4
    then have ni: "nat i < nat (size' x)" by simp
    have "\<not> nat j < length (map IntV (M ! nat i))" using 4 o(8)[OF ni] by simp
    then show ?thesis
      using x 4 ni o(2,4) o(7)[OF ni]
      by (simp add: StudentM_get_def StudentM_set_def the_mstudent_def bnd_def
          read_ptr_def read_cell_def subscript_get_def subscript_set_def read_int_def
          write_cell_def)
  qed
qed















section \<open>The concrete states\<close>

lemma campus_eq:
  "campus m =
     \<lparr>heap = [1 \<mapsto> [IntV 1, IntV 2, IntV 3], 3 \<mapsto> [IntV 4, IntV 5, IntV 6],
             5 \<mapsto> [PtrV 6, PtrV 7], 6 \<mapsto> [IntV 1, IntV 2], 7 \<mapsto> [IntV 3, IntV 4],
             9 \<mapsto> [PtrV 10], 10 \<mapsto> [IntV 9]],
      nxt = 12, avail = m, population = 2,
      students = [2 \<mapsto> \<lparr>id' = 1, age = 20, name = ''Bob'', marks = 1\<rparr>,
                  4 \<mapsto> \<lparr>id' = 7, age = 21, name = ''Eve'', marks = 3\<rparr>],
      mstudents =
          [8 \<mapsto> \<lparr>mid = 101, mage = 22, mname = ''Ann'', fees = 5000, size' = 2, matrix = 5\<rparr>,
           11 \<mapsto> \<lparr>mid = 201, mage = 23, mname = ''Haseeb'', fees = 7000, size' = 1, matrix = 9\<rparr>]\<rparr>"
  by (simp add: campus_def two_students_eq)

lemma heap_ok_campus: "heap_ok (campus m)"
  by (auto simp: heap_ok_def campus_eq split: if_splits)

lemma owns_campus:
  "owns (campus m) \<lparr>mid = 101, mage = 22, mname = ''Ann'', fees = 5000, size' = 2, matrix = 5\<rparr>
     [6, 7] [[1, 2], [3, 4]]"
  "owns (campus m) \<lparr>mid = 201, mage = 23, mname = ''Haseeb'', fees = 7000, size' = 1, matrix = 9\<rparr>
     [10] [[9]]"
  by (simp_all add: owns_def campus_eq)

section \<open>The claims\<close>

text \<open>
  Claim C1. Copy construction is a deep copy, in both classes. Copying a valid object
  returns a new object of the same size whose cells all equal the source's, stored in
  blocks of its own (no address in common with the source's); the source and every block
  that existed before are as they were; and writing any cell of either object
  afterwards changes that cell in that object and nothing in the other. Stated, for
  each class on its own, for a well-formed state with enough free store for the copy.
\<close>

theorem copy_constructor_is_deep:
  "(heap_ok st \<and> mstudents st s = Some y \<and> owns st y rs M \<and>
    nat (size' y) + nat (size' y) * nat (size' y) \<le> avail st \<longrightarrow>
   (\<exists>c st' x' rs'.
     StudentM_copy s st = (Inr c, st') \<and> c \<noteq> s \<and>
     mstudents st' c = Some x' \<and> size' x' = size' y \<and> owns st' x' rs' M \<and>
     mstudents st' s = Some y \<and> owns st' y rs M \<and>
     (\<forall>p. p < nxt st \<longrightarrow> heap st' p = heap st p) \<and>
     footprint x' rs' \<inter> footprint y rs = {} \<and>
     (\<forall>i j v. 0 \<le> i \<and> i < size' y \<and> 0 \<le> j \<and> j < size' y \<longrightarrow>
        (\<exists>st''. StudentM_set c i j v st' = (Inr (), st'') \<and>
                owns st'' x' rs' (M[nat i := (M ! nat i)[nat j := v]]) \<and> owns st'' y rs M) \<and>
        (\<exists>st''. StudentM_set s i j v st' = (Inr (), st'') \<and>
                owns st'' y rs (M[nat i := (M ! nat i)[nat j := v]]) \<and> owns st'' x' rs' M))))
   \<and> (heap_ok st \<and> students st u = Some z \<and> marks_of st u = Some vs \<and> 3 \<le> avail st \<longrightarrow>
   (\<exists>c st' z'.
     Student_copy u st = (Inr c, st') \<and> c \<noteq> u \<and>
     students st' c = Some z' \<and> marks z' \<noteq> marks z \<and> marks_of st' c = Some vs \<and>
     students st' u = Some z \<and> marks_of st' u = Some vs \<and>
     (\<forall>p. p < nxt st \<longrightarrow> heap st' p = heap st p) \<and>
     (\<forall>i v. 0 \<le> i \<and> i < 3 \<longrightarrow>
        marks_of (snd (Student_set_mark c i v st')) c = Some (vs[nat i := v]) \<and>
        marks_of (snd (Student_set_mark c i v st')) u = Some vs \<and>
        marks_of (snd (Student_set_mark u i v st')) u = Some (vs[nat i := v]) \<and>
        marks_of (snd (Student_set_mark u i v st')) c = Some vs)))"
    (is "(_ \<longrightarrow> ?matrix) \<and> (_ \<longrightarrow> ?three_marks)")
proof (intro conjI impI)
  assume "heap_ok st \<and> mstudents st s = Some y \<and> owns st y rs M \<and>
    nat (size' y) + nat (size' y) * nat (size' y) \<le> avail st"
  then have ok: "heap_ok st" and y: "mstudents st s = Some y" and own: "owns st y rs M"
    and mem: "nat (size' y) + nat (size' y) * nat (size' y) \<le> avail st"
    by simp_all
  show ?matrix
  proof -
    define N where "N = nat (size' y)"
    define c where "c = Suc (nxt st) + N"
    define rd where "rd = [Suc (nxt st)..<Suc (nxt st) + N]"
    define x' where "x' = \<lparr>mid = mid y, mage = mage y, mname = mname y, fees = fees y,
        size' = size' y, matrix = nxt st\<rparr>"
    from StudentM_copy_run[OF y own ok mem, folded N_def, folded c_def rd_def x'_def]
    obtain st' where run: "StudentM_copy s st = (Inr c, st')"
      and ms: "mstudents st' = (mstudents st)(c \<mapsto> x')"
      and own': "owns st' x' rd M"
      and keep: "\<And>p. p < nxt st \<Longrightarrow> heap st' p = heap st p"
      by blast
    have slt: "s < nxt st" using heap_okD(4)[OF ok y] by simp
    then have cs: "c \<noteq> s" by (simp add: c_def)
    have ys: "mstudents st' s = Some y" using y cs by (simp add: ms)
    have xs: "mstudents st' c = Some x'" by (simp add: ms)
    have below: "p \<in> footprint y rs \<Longrightarrow> p < nxt st" for p
      using owns_below[OF own ok] by simp
    have owny: "owns st' y rs M"
      by (rule owns_frame[OF own]) (use keep below in auto)
    have above: "p \<in> footprint x' rd \<Longrightarrow> nxt st \<le> p" for p
      by (auto simp: footprint_def x'_def rd_def)
    have disj: "footprint x' rd \<inter> footprint y rs = {}"
      using below above by fastforce
    have iso: "(\<exists>st''. StudentM_set c i j v st' = (Inr (), st'') \<and>
                  owns st'' x' rd (M[nat i := (M ! nat i)[nat j := v]]) \<and> owns st'' y rs M) \<and>
          (\<exists>st''. StudentM_set s i j v st' = (Inr (), st'') \<and>
                  owns st'' y rs (M[nat i := (M ! nat i)[nat j := v]]) \<and> owns st'' x' rd M)"
      if ij: "0 \<le> i \<and> i < size' y \<and> 0 \<le> j \<and> j < size' y" for i j v
    proof -
      have sx: "size' x' = size' y" by (simp add: x'_def)
      have ni: "nat i < nat (size' y)" and nj: "nat j < nat (size' y)" using ij by simp_all
      have a: "rd ! nat i \<in> footprint x' rd"
        using ni owns_SomeD(2)[OF own'] by (simp add: footprint_def sx)
      have b: "rs ! nat i \<in> footprint y rs"
        using ni owns_SomeD(2)[OF owny] by (simp add: footprint_def)
      have a': "rd ! nat i \<notin> footprint y rs" and b': "rs ! nat i \<notin> footprint x' rd"
        using a b disj by blast+
      show ?thesis
        using StudentM_set_run[OF xs own', of i j v] StudentM_set_run[OF ys owny, of i j v]
          owns_update[OF own', of "nat i" "nat j" v] owns_update[OF owny, of "nat i" "nat j" v]
          owns_other[OF owny a'] owns_other[OF own' b'] ij ni nj
        by (simp add: sx)
    qed
    show ?thesis
      apply (rule exI[of _ c], rule exI[of _ st'], rule exI[of _ x'], rule exI[of _ rd])
      using run cs xs own' ys owny keep disj iso
      apply (simp add: x'_def)
      done
  qed
next
  assume "heap_ok st \<and> students st u = Some z \<and> marks_of st u = Some vs \<and> 3 \<le> avail st"
  then have ok: "heap_ok st" and z: "students st u = Some z" and mz: "marks_of st u = Some vs"
    and mem3: "3 \<le> avail st"
    by simp_all
  show ?three_marks
  proof -
    note hz = marks_of_heapD[OF mz z]
    from hz obtain v0 v1 v2 where vs: "vs = [v0, v1, v2]"
      by (auto simp: numeral_3_eq_3 length_Suc_conv)
    define c where "c = Suc (nxt st)"
    define z' where "z' = \<lparr>id' = id' z, age = age z, name = name z, marks = nxt st\<rparr>"
    define st' where "st' = st\<lparr>heap := (heap st)(nxt st \<mapsto> [IntV v0, IntV v1, IntV v2]),
           nxt := Suc (Suc (nxt st)), avail := avail st - 3,
           students := (students st)(c \<mapsto> z')\<rparr>"
    have run: "Student_copy u st = (Inr c, st')"
      using Student_copy_run[OF z _ mem3 ok, of v0 v1 v2] hz(1) vs
      by (simp add: c_def st'_def z'_def)
    have ult: "u < nxt st" and mlt: "marks z < nxt st"
      using heap_okD(3)[OF ok z] heap_okD(2)[OF ok hz(1)] by simp_all
    have cu: "c \<noteq> u" using ult by (simp add: c_def)
    have mm: "marks z' \<noteq> marks z" using mlt by (simp add: z'_def)
    have sc: "students st' c = Some z'" and su: "students st' u = Some z"
      using z cu by (simp_all add: st'_def)
    have hc: "heap st' (marks z') = Some (map IntV vs)"
      and hu: "heap st' (marks z) = Some (map IntV vs)"
      using hz(1) mlt by (simp_all add: st'_def z'_def vs)
    have mc: "marks_of st' c = Some vs" and mu: "marks_of st' u = Some vs"
      using marks_of_eq[OF sc hc hz(2)] marks_of_eq[OF su hu hz(2)] by simp_all
    have keep: "heap st' p = heap st p" if "p < nxt st" for p
      using that by (simp add: st'_def)
    have iso: "marks_of (snd (Student_set_mark c i v st')) c = Some (vs[nat i := v]) \<and>
          marks_of (snd (Student_set_mark c i v st')) u = Some vs \<and>
          marks_of (snd (Student_set_mark u i v st')) u = Some (vs[nat i := v]) \<and>
          marks_of (snd (Student_set_mark u i v st')) c = Some vs"
      if i: "0 \<le> i \<and> i < 3" for i v
    proof -
      from i have i1: "0 \<le> i" and i2: "i < 3" by simp_all
      note a = Student_set_mark_marks[OF sc hc hz(2) i1 i2, of v]
      note b = Student_set_mark_marks[OF su hu hz(2) i1 i2, of v]
      have "marks_of (snd (Student_set_mark c i v st')) u = Some vs"
        unfolding a(1) snd_conv by (rule marks_of_other[OF mu su]) (use mm in simp)
      moreover have "marks_of (snd (Student_set_mark u i v st')) c = Some vs"
        unfolding b(1) snd_conv by (rule marks_of_other[OF mc sc]) (use mm in simp)
      ultimately show ?thesis using a(2) b(2) by simp
    qed
    show ?thesis
      apply (rule exI[of _ c], rule exI[of _ st'], rule exI[of _ z'])
      using run cu sc mm mc su mu keep iso
      apply simp
      done
  qed
qed

theorem copy_constructor_is_deep_witness:
  "heap_ok (campus 20)
   \<and> mstudents (campus 20) 8 =
       Some \<lparr>mid = 101, mage = 22, mname = ''Ann'', fees = 5000, size' = 2, matrix = 5\<rparr>
   \<and> owns (campus 20)
       \<lparr>mid = 101, mage = 22, mname = ''Ann'', fees = 5000, size' = 2, matrix = 5\<rparr>
       [6, 7] [[1, 2], [3, 4]]
   \<and> students (campus 20) 2 = Some \<lparr>id' = 1, age = 20, name = ''Bob'', marks = 1\<rparr>
   \<and> marks_of (campus 20) 2 = Some [1, 2, 3]
   \<and> (\<exists>c st' x' rs'. StudentM_copy 8 (campus 20) = (Inr c, st') \<and> c \<noteq> 8 \<and>
         mstudents st' c = Some x' \<and> size' x' = 2 \<and> owns st' x' rs' [[1, 2], [3, 4]] \<and>
         footprint x' rs' \<inter> {5, 6, 7} = {})
   \<and> (\<exists>c st' z'. Student_copy 2 (campus 20) = (Inr c, st') \<and> c \<noteq> 2 \<and>
         students st' c = Some z' \<and> marks z' \<noteq> 1 \<and> marks_of st' c = Some [1, 2, 3])"
proof -
  let ?Ann = "\<lparr>mid = 101, mage = 22, mname = ''Ann'', fees = 5000, size' = 2, matrix = 5\<rparr>"
  let ?Bob = "\<lparr>id' = 1, age = 20, name = ''Bob'', marks = 1\<rparr>"
  have ok: "heap_ok (campus 20)" by (rule heap_ok_campus)
  have y: "mstudents (campus 20) 8 = Some ?Ann" by (simp add: campus_eq)
  have own: "owns (campus 20) ?Ann [6, 7] [[1, 2], [3, 4]]" by (rule owns_campus)
  have mem: "nat (size' ?Ann) + nat (size' ?Ann) * nat (size' ?Ann) \<le> avail (campus 20)"
    by (simp add: campus_eq)
  have z: "students (campus 20) 2 = Some ?Bob" by (simp add: campus_eq)
  have mz: "marks_of (campus 20) 2 = Some [1, 2, 3]" by (simp add: campus_eq marks_of_def)
  have mem3: "3 \<le> avail (campus 20)" by (simp add: campus_eq)
  have fp: "footprint ?Ann [6, 7] = {5, 6, 7}" by (simp add: footprint_def)
  have hm: "heap_ok (campus 20) \<and> mstudents (campus 20) 8 = Some ?Ann \<and>
      owns (campus 20) ?Ann [6, 7] [[1, 2], [3, 4]] \<and>
      nat (size' ?Ann) + nat (size' ?Ann) * nat (size' ?Ann) \<le> avail (campus 20)"
    using ok y own mem by (intro conjI)
  have hk: "heap_ok (campus 20) \<and> students (campus 20) 2 = Some ?Bob \<and>
      marks_of (campus 20) 2 = Some [1, 2, 3] \<and> 3 \<le> avail (campus 20)"
    using ok z mz mem3 by (intro conjI)
  note inst = copy_constructor_is_deep
    [where st = "campus 20" and s = 8 and y = ?Ann and rs = "[6, 7]" and M = "[[1, 2], [3, 4]]"
       and u = 2 and z = ?Bob and vs = "[1, 2, 3]"]
  from inst [THEN conjunct1, THEN mp, OF hm, unfolded fp] obtain c st' x' rs' where
    "StudentM_copy 8 (campus 20) = (Inr c, st')" "c \<noteq> 8" "mstudents st' c = Some x'"
    "size' x' = size' ?Ann" "owns st' x' rs' [[1, 2], [3, 4]]" "footprint x' rs' \<inter> {5, 6, 7} = {}"
    by (elim exE conjE) (rule that, assumption+)
  then have a: "\<exists>c st' x' rs'. StudentM_copy 8 (campus 20) = (Inr c, st') \<and> c \<noteq> 8 \<and>
         mstudents st' c = Some x' \<and> size' x' = 2 \<and> owns st' x' rs' [[1, 2], [3, 4]] \<and>
         footprint x' rs' \<inter> {5, 6, 7} = {}"
    by (intro exI[of _ c] exI[of _ st'] exI[of _ x'] exI[of _ rs']) simp
  from inst [THEN conjunct2, THEN mp, OF hk] obtain d st2 z' where
    "Student_copy 2 (campus 20) = (Inr d, st2)" "d \<noteq> 2" "students st2 d = Some z'"
    "marks z' \<noteq> marks ?Bob" "marks_of st2 d = Some [1, 2, 3]"
    by (elim exE conjE) (rule that, assumption+)
  then have b: "\<exists>c st' z'. Student_copy 2 (campus 20) = (Inr c, st') \<and> c \<noteq> 2 \<and>
         students st' c = Some z' \<and> marks z' \<noteq> 1 \<and> marks_of st' c = Some [1, 2, 3]"
    by (intro exI[of _ d] exI[of _ st2] exI[of _ z']) simp
  from ok y own z mz a b show ?thesis by (intro conjI)
qed

text \<open>
  Claim C2. Self-assignment changes nothing. In the cheatsheet's class the operator
  compares \<^verbatim>\<open>this\<close> with \<^verbatim>\<open>&s\<close> first and returns at once, whatever the state
  of the object. The operator of the program's class has no such test: it copies each
  of the three marks onto itself, which leaves a valid object, and the whole state, as
  it was. No block is released or allocated in either case.
\<close>

theorem self_assignment_is_noop:
  "StudentM_assign a a st = (Inr (), st) \<and>
   (marks_of st u = Some vs \<longrightarrow> Student_assign u u st = (Inr (), st))"
proof (intro conjI impI)
  show "StudentM_assign a a st = (Inr (), st)"
    by (simp add: StudentM_assign_def ret_def)
next
  assume "marks_of st u = Some vs"
  then obtain x v0 v1 v2 where x: "students st u = Some x"
    and h: "heap st (marks x) = Some [IntV v0, IntV v1, IntV v2]"
    by (auto elim!: marks_of_SomeD)
  have "(heap st)(marks x \<mapsto> [IntV v0, IntV v1, IntV v2]) = heap st"
    using h by (simp add: fun_upd_idem)
  then show "Student_assign u u st = (Inr (), st)"
    using x copy_marks_run[OF h h]
    by (simp add: Student_assign_def the_student_def bnd_def)
qed

theorem self_assignment_is_noop_witness:
  "marks_of (campus 20) 2 = Some [1, 2, 3]
   \<and> StudentM_assign 8 8 (campus 20) = (Inr (), campus 20)
   \<and> Student_assign 2 2 (campus 20) = (Inr (), campus 20)"
proof -
  have a: "marks_of (campus 20) 2 = Some [1, 2, 3]" by (simp add: campus_eq marks_of_def)
  note inst = self_assignment_is_noop
    [where st = "campus 20" and a = 8 and u = 2 and vs = "[1, 2, 3]"]
  from a inst [THEN conjunct1] inst [THEN conjunct2, THEN mp, OF a]
  show ?thesis by (intro conjI)
qed

text \<open>
  Claim C3. Assignment between objects of different sizes, in the cheatsheet's class:
  for two distinct valid objects that share no storage, with enough free store once the
  receiver's blocks are released, \<^verbatim>\<open>a = b\<close> returns; afterwards \<open>a\<close> has the size
  of \<open>b\<close> and owns a matrix equal to \<open>b\<close>'s cell by cell, in blocks that share no
  address with \<open>b\<close>'s; every block \<open>a\<close> owned before is released; and \<open>b\<close> is the
  same object owning the same blocks with the same contents.
\<close>

theorem assign_between_sizes:
  assumes ok: "heap_ok st"
    and x: "mstudents st this = Some x" and y: "mstudents st s = Some y"
    and ownx: "owns st x rx Mx" and owny: "owns st y ry My"
    and disj: "footprint x rx \<inter> footprint y ry = {}" and ne: "this \<noteq> s"
    and neq: "size' x \<noteq> size' y"
    and mem: "nat (size' y) + nat (size' y) * nat (size' y) \<le>
              avail st + nat (size' x) * nat (size' x) + nat (size' x)"
  shows "\<exists>st' x' rs'.
     StudentM_assign this s st = (Inr (), st') \<and>
     mstudents st' this = Some x' \<and> size' x' = size' y \<and> owns st' x' rs' My \<and>
     mstudents st' s = Some y \<and> owns st' y ry My \<and>
     (\<forall>p\<in>footprint x rx. heap st' p = None) \<and>
     footprint x' rs' \<inter> footprint y ry = {}"
proof -
  from StudentM_assign_valid[OF ok x y ownx owny disj ne mem]
  obtain st' x' rs' where run: "StudentM_assign this s st = (Inr (), st')"
    and ms: "mstudents st' = (mstudents st)(this \<mapsto> x')"
    and x': "x' = x\<lparr>mage := mage y, mname := mname y, fees := fees y, size' := size' y,
            matrix := matrix x'\<rparr>"
    and own': "owns st' x' rs' My"
    and frame: "\<And>w rw Mw. owns st w rw Mw \<and> footprint w rw \<inter> footprint x rx = {}
                  \<Longrightarrow> owns st' w rw Mw"
    and gone: "size' x \<noteq> size' y \<longrightarrow> (\<forall>p\<in>footprint x rx. heap st' p = None)"
    and d': "footprint x' rs' \<inter> footprint y ry = {}"
    by (elim exE conjE) (rule that, simp_all)
  have sz: "size' x' = size' y" by (subst x') simp
  have oy: "owns st' y ry My" using frame[of y ry My] owny disj by (simp add: Int_commute)
  have "mstudents st' s = Some y" using y ne by (simp add: ms)
  moreover have "mstudents st' this = Some x'" by (simp add: ms)
  ultimately show ?thesis
    using run sz own' oy gone neq d' by blast
qed

theorem assign_between_sizes_witness:
  "heap_ok (campus 20)
   \<and> mstudents (campus 20) 11 =
       Some \<lparr>mid = 201, mage = 23, mname = ''Haseeb'', fees = 7000, size' = 1, matrix = 9\<rparr>
   \<and> mstudents (campus 20) 8 =
       Some \<lparr>mid = 101, mage = 22, mname = ''Ann'', fees = 5000, size' = 2, matrix = 5\<rparr>
   \<and> owns (campus 20)
       \<lparr>mid = 201, mage = 23, mname = ''Haseeb'', fees = 7000, size' = 1, matrix = 9\<rparr>
       [10] [[9]]
   \<and> owns (campus 20)
       \<lparr>mid = 101, mage = 22, mname = ''Ann'', fees = 5000, size' = 2, matrix = 5\<rparr>
       [6, 7] [[1, 2], [3, 4]]
   \<and> (\<exists>st' x' rs'. StudentM_assign 11 8 (campus 20) = (Inr (), st') \<and>
         mstudents st' 11 = Some x' \<and> size' x' = 2 \<and> owns st' x' rs' [[1, 2], [3, 4]] \<and>
         heap st' 9 = None \<and> heap st' 10 = None)"
proof -
  let ?Ann = "\<lparr>mid = 101, mage = 22, mname = ''Ann'', fees = 5000, size' = 2, matrix = 5\<rparr>"
  let ?Has = "\<lparr>mid = 201, mage = 23, mname = ''Haseeb'', fees = 7000, size' = 1, matrix = 9\<rparr>"
  have ok: "heap_ok (campus 20)" by (rule heap_ok_campus)
  have x: "mstudents (campus 20) 11 = Some ?Has" and y: "mstudents (campus 20) 8 = Some ?Ann"
    by (simp_all add: campus_eq)
  have ownx: "owns (campus 20) ?Has [10] [[9]]"
    and owny: "owns (campus 20) ?Ann [6, 7] [[1, 2], [3, 4]]"
    by (rule owns_campus)+
  have disj: "footprint ?Has [10] \<inter> footprint ?Ann [6, 7] = {}"
    by (simp add: footprint_def)
  have ne: "(11::nat) \<noteq> 8" by simp
  have neq: "size' ?Has \<noteq> size' ?Ann" by simp
  have mem: "nat (size' ?Ann) + nat (size' ?Ann) * nat (size' ?Ann) \<le>
      avail (campus 20) + nat (size' ?Has) * nat (size' ?Has) + nat (size' ?Has)"
    by (simp add: campus_eq)
  from assign_between_sizes [OF ok x y ownx owny disj ne neq mem]
  obtain st' x' rs' where "StudentM_assign 11 8 (campus 20) = (Inr (), st')"
    "mstudents st' 11 = Some x'" "size' x' = size' ?Ann" "owns st' x' rs' [[1, 2], [3, 4]]"
    "\<forall>p\<in>footprint ?Has [10]. heap st' p = None"
    by (elim exE conjE) (rule that, assumption+)
  then have "\<exists>st' x' rs'. StudentM_assign 11 8 (campus 20) = (Inr (), st') \<and>
         mstudents st' 11 = Some x' \<and> size' x' = 2 \<and> owns st' x' rs' [[1, 2], [3, 4]] \<and>
         heap st' 9 = None \<and> heap st' 10 = None"
    by (intro exI[of _ st'] exI[of _ x'] exI[of _ rs']) (simp add: footprint_def)
  with ok x y ownx owny show ?thesis by (intro conjI)
qed

text \<open>
  Claim C4, as the code has it. Element access is the built-in subscript on the public
  pointer (\<^verbatim>\<open>s2.marks[0] = 85\<close>, \<^verbatim>\<open>matrix[i][j]\<close>); nothing checks the index and
  nothing raises \<open>OutOfRange\<close>. On a valid object an access with every index inside
  \<open>[0, size)\<close> reads the stored cell, or overwrites exactly that cell; an access with
  an index outside is undefined behaviour.
\<close>

theorem element_access_is_unchecked:
  "(mstudents st a = Some x \<and> owns st x rs M \<longrightarrow>
         StudentM_get a i j st =
           (if 0 \<le> i \<and> i < size' x \<and> 0 \<le> j \<and> j < size' x
            then (Inr (M ! nat i ! nat j), st) else (Inl UndefinedBehavior, st))
       \<and> (if 0 \<le> i \<and> i < size' x \<and> 0 \<le> j \<and> j < size' x
          then fst (StudentM_set a i j v st) = Inr () \<and>
               owns (snd (StudentM_set a i j v st)) x rs (M[nat i := (M ! nat i)[nat j := v]])
          else StudentM_set a i j v st = (Inl UndefinedBehavior, st)))
   \<and> (students st u = Some z \<and> marks_of st u = Some vs \<longrightarrow>
         Student_get_mark u k st =
           (if 0 \<le> k \<and> k < 3 then (Inr (vs ! nat k), st) else (Inl UndefinedBehavior, st))
       \<and> (if 0 \<le> k \<and> k < 3
          then fst (Student_set_mark u k v st) = Inr () \<and>
               marks_of (snd (Student_set_mark u k v st)) u = Some (vs[nat k := v])
          else Student_set_mark u k v st = (Inl UndefinedBehavior, st)))"
proof (rule conjI; rule impI)
  assume "mstudents st a = Some x \<and> owns st x rs M"
  then have x: "mstudents st a = Some x" and own: "owns st x rs M" by simp_all
  show "StudentM_get a i j st =
          (if 0 \<le> i \<and> i < size' x \<and> 0 \<le> j \<and> j < size' x
           then (Inr (M ! nat i ! nat j), st) else (Inl UndefinedBehavior, st)) \<and>
        (if 0 \<le> i \<and> i < size' x \<and> 0 \<le> j \<and> j < size' x
         then fst (StudentM_set a i j v st) = Inr () \<and>
              owns (snd (StudentM_set a i j v st)) x rs (M[nat i := (M ! nat i)[nat j := v]])
         else StudentM_set a i j v st = (Inl UndefinedBehavior, st))"
  proof (intro conjI)
    show "StudentM_get a i j st =
           (if 0 \<le> i \<and> i < size' x \<and> 0 \<le> j \<and> j < size' x
            then (Inr (M ! nat i ! nat j), st) else (Inl UndefinedBehavior, st))"
      using StudentM_get_run[OF x own, of i j] StudentM_out_of_range[OF x own, of i j]
      by (cases "0 \<le> i \<and> i < size' x \<and> 0 \<le> j \<and> j < size' x") simp_all
    show "if 0 \<le> i \<and> i < size' x \<and> 0 \<le> j \<and> j < size' x
          then fst (StudentM_set a i j v st) = Inr () \<and>
               owns (snd (StudentM_set a i j v st)) x rs (M[nat i := (M ! nat i)[nat j := v]])
          else StudentM_set a i j v st = (Inl UndefinedBehavior, st)"
    proof (cases "0 \<le> i \<and> i < size' x \<and> 0 \<le> j \<and> j < size' x")
      case True
      then have "nat i < nat (size' x)" "nat j < nat (size' x)" by simp_all
      from owns_update[OF own this, of v] True StudentM_set_run[OF x own, of i j v]
      show ?thesis by simp
    next
      case False
      then show ?thesis using StudentM_out_of_range[OF x own False, of v] by simp
    qed
  qed
next
  assume "students st u = Some z \<and> marks_of st u = Some vs"
  then have z: "students st u = Some z" and mz: "marks_of st u = Some vs" by simp_all
  note hz = marks_of_heapD[OF mz z]
  show "Student_get_mark u k st =
          (if 0 \<le> k \<and> k < 3 then (Inr (vs ! nat k), st) else (Inl UndefinedBehavior, st)) \<and>
        (if 0 \<le> k \<and> k < 3
         then fst (Student_set_mark u k v st) = Inr () \<and>
              marks_of (snd (Student_set_mark u k v st)) u = Some (vs[nat k := v])
         else Student_set_mark u k v st = (Inl UndefinedBehavior, st))"
  proof (intro conjI)
    show "Student_get_mark u k st =
           (if 0 \<le> k \<and> k < 3 then (Inr (vs ! nat k), st) else (Inl UndefinedBehavior, st))"
      using Student_get_mark_run[OF z hz(1), of k] Student_mark_out_of_range(1)[OF z hz(1), of k]
        hz(2)
      by (cases "0 \<le> k \<and> k < 3") auto
    show "if 0 \<le> k \<and> k < 3
          then fst (Student_set_mark u k v st) = Inr () \<and>
               marks_of (snd (Student_set_mark u k v st)) u = Some (vs[nat k := v])
          else Student_set_mark u k v st = (Inl UndefinedBehavior, st)"
      using Student_set_mark_marks[OF z hz(1) hz(2), of k v]
        Student_mark_out_of_range(2)[OF z hz(1), of k v] hz(2)
      by (cases "0 \<le> k \<and> k < 3") auto
  qed
qed

theorem element_access_is_unchecked_witness:
  "mstudents (campus 20) 8 =
       Some \<lparr>mid = 101, mage = 22, mname = ''Ann'', fees = 5000, size' = 2, matrix = 5\<rparr>
   \<and> owns (campus 20)
       \<lparr>mid = 101, mage = 22, mname = ''Ann'', fees = 5000, size' = 2, matrix = 5\<rparr>
       [6, 7] [[1, 2], [3, 4]]
   \<and> students (campus 20) 2 = Some \<lparr>id' = 1, age = 20, name = ''Bob'', marks = 1\<rparr>
   \<and> marks_of (campus 20) 2 = Some [1, 2, 3]
   \<and> StudentM_get 8 1 0 (campus 20) = (Inr 3, campus 20)
   \<and> StudentM_get 8 2 0 (campus 20) = (Inl UndefinedBehavior, campus 20)
   \<and> owns (snd (StudentM_set 8 1 1 42 (campus 20)))
       \<lparr>mid = 101, mage = 22, mname = ''Ann'', fees = 5000, size' = 2, matrix = 5\<rparr>
       [6, 7] [[1, 2], [3, 42]]
   \<and> Student_get_mark 2 0 (campus 20) = (Inr 1, campus 20)
   \<and> marks_of (snd (Student_set_mark 2 0 85 (campus 20))) 2 = Some [85, 2, 3]
   \<and> Student_set_mark 2 3 85 (campus 20) = (Inl UndefinedBehavior, campus 20)"
proof -
  let ?Ann = "\<lparr>mid = 101, mage = 22, mname = ''Ann'', fees = 5000, size' = 2, matrix = 5\<rparr>"
  let ?Bob = "\<lparr>id' = 1, age = 20, name = ''Bob'', marks = 1\<rparr>"
  have x: "mstudents (campus 20) 8 = Some ?Ann" by (simp add: campus_eq)
  have own: "owns (campus 20) ?Ann [6, 7] [[1, 2], [3, 4]]" by (rule owns_campus)
  have z: "students (campus 20) 2 = Some ?Bob" by (simp add: campus_eq)
  have mz: "marks_of (campus 20) 2 = Some [1, 2, 3]" by (simp add: campus_eq marks_of_def)
  have hm: "mstudents (campus 20) 8 = Some ?Ann \<and>
      owns (campus 20) ?Ann [6, 7] [[1, 2], [3, 4]]"
    using x own by (intro conjI)
  have hk: "students (campus 20) 2 = Some ?Bob \<and> marks_of (campus 20) 2 = Some [1, 2, 3]"
    using z mz by (intro conjI)
  note inst = element_access_is_unchecked
    [where st = "campus 20" and a = 8 and x = ?Ann and rs = "[6, 7]"
       and M = "[[1, 2], [3, 4]]" and u = 2 and z = ?Bob and vs = "[1, 2, 3]"]
  have t: "StudentM_get 8 i j (campus 20) =
          (if 0 \<le> i \<and> i < size' ?Ann \<and> 0 \<le> j \<and> j < size' ?Ann
           then (Inr ([[1, 2], [3, 4]] ! nat i ! nat j), campus 20)
           else (Inl UndefinedBehavior, campus 20))"
    "if 0 \<le> i \<and> i < size' ?Ann \<and> 0 \<le> j \<and> j < size' ?Ann
         then fst (StudentM_set 8 i j v (campus 20)) = Inr () \<and>
              owns (snd (StudentM_set 8 i j v (campus 20))) ?Ann [6, 7]
                ([[1, 2], [3, 4]][nat i := ([[1, 2], [3, 4]] ! nat i)[nat j := v]])
         else StudentM_set 8 i j v (campus 20) = (Inl UndefinedBehavior, campus 20)"
    "Student_get_mark 2 k (campus 20) =
          (if 0 \<le> k \<and> k < 3 then (Inr ([1, 2, 3] ! nat k), campus 20)
           else (Inl UndefinedBehavior, campus 20))"
    "if 0 \<le> k \<and> k < 3
         then fst (Student_set_mark 2 k v (campus 20)) = Inr () \<and>
              marks_of (snd (Student_set_mark 2 k v (campus 20))) 2 = Some ([1, 2, 3][nat k := v])
         else Student_set_mark 2 k v (campus 20) = (Inl UndefinedBehavior, campus 20)"
    for i j k v
    using inst [of i j v k, THEN conjunct1, THEN mp, OF hm]
      inst [of i j v k, THEN conjunct2, THEN mp, OF hk]
    by blast+
  have "StudentM_get 8 1 0 (campus 20) = (Inr 3, campus 20)"
    using t(1) [of 1 0] by simp
  moreover have "StudentM_get 8 2 0 (campus 20) = (Inl UndefinedBehavior, campus 20)"
    using t(1) [of 2 0] by simp
  moreover have "owns (snd (StudentM_set 8 1 1 42 (campus 20))) ?Ann [6, 7] [[1, 2], [3, 42]]"
    using t(2) [of 1 1 42] by simp
  moreover have "Student_get_mark 2 0 (campus 20) = (Inr 1, campus 20)"
    using t(3) [of 0] by simp
  moreover have "marks_of (snd (Student_set_mark 2 0 85 (campus 20))) 2 = Some [85, 2, 3]"
    using t(4) [of 0 85] by simp
  moreover have "Student_set_mark 2 3 85 (campus 20) = (Inl UndefinedBehavior, campus 20)"
    using t(4) [of 3 85] by simp
  ultimately show ?thesis using x own z mz by (intro conjI)
qed

text \<open>The claim as the specification words it fails on the code: reading row \<open>-1\<close>, or a
  mark at index \<open>-1\<close>, does not end in \<open>OutOfRange\<close>.\<close>

theorem get_minus_one_is_not_OutOfRange:
  "fst (StudentM_get 8 (- 1) 0 (campus 20)) \<noteq> Inl OutOfRange
   \<and> fst (StudentM_get 8 (- 1) 0 (campus 20)) = Inl UndefinedBehavior
   \<and> fst (Student_get_mark 2 (- 1) (campus 20)) \<noteq> Inl OutOfRange
   \<and> fst (Student_set_mark 2 3 85 (campus 20)) \<noteq> Inl OutOfRange"
  by (simp add: StudentM_get_def Student_get_mark_def Student_set_mark_def the_mstudent_def
      the_student_def bnd_def throw_def subscript_get_def subscript_set_def write_cell_def
      campus_eq)

text \<open>
  Claim C5, as the code has it. The constructors of \<^verbatim>\<open>Student\<close> take no size and know no
  \<open>InvalidArgument\<close>: whatever integers they are given, negative ones included, they
  succeed when three cells of free store are left, and the new object then owns exactly
  three cells, holding \<open>m1, m2, m3\<close> in this order (three zeros for the default
  constructor). With fewer than three cells left, \<^verbatim>\<open>new int[3]\<close> throws
  \<^verbatim>\<open>bad_alloc\<close>, the \<^verbatim>\<open>Person\<close> base is destroyed again, and the state is as before.
\<close>

theorem Student_ctor_allocates_three:
  assumes "INT_MIN \<le> population st" and "population st \<noteq> INT_MAX"
  shows "fst (Student_ctor a n i m1 m2 m3 st) =
           (if 3 \<le> avail st then Inr (Suc (nxt st)) else Inl BadAlloc)
       \<and> (if 3 \<le> avail st
          then marks_of (snd (Student_ctor a n i m1 m2 m3 st)) (Suc (nxt st)) = Some [m1, m2, m3]
          else snd (Student_ctor a n i m1 m2 m3 st) = st)
       \<and> fst (Student_ctor_default st) =
           (if 3 \<le> avail st then Inr (Suc (nxt st)) else Inl BadAlloc)
       \<and> (if 3 \<le> avail st
          then marks_of (snd (Student_ctor_default st)) (Suc (nxt st)) = Some [0, 0, 0]
          else snd (Student_ctor_default st) = st)"
proof (cases "3 \<le> avail st")
  case True
  show ?thesis
    using True Student_ctor_run(1)[OF assms(2) True, of a n i m1 m2 m3]
      Student_ctor_run(2)[OF assms(2) True]
    by (simp add: marks_of_def)
next
  case False
  then have "avail st < 3" by simp
  from Student_ctor_fail(1)[OF assms(2,1) this, of a n i m1 m2 m3]
    Student_ctor_fail(2)[OF assms(2,1) this] False
  show ?thesis by simp
qed

theorem Student_ctor_allocates_three_witness:
  "INT_MIN \<le> population (start_state 10) \<and> population (start_state 10) \<noteq> INT_MAX
   \<and> fst (Student_ctor 20 ''Bob'' 1 1 2 3 (start_state 10)) = Inr 2
   \<and> marks_of (snd (Student_ctor 20 ''Bob'' 1 1 2 3 (start_state 10))) 2 = Some [1, 2, 3]
   \<and> marks_of (snd (Student_ctor_default (start_state 10))) 2 = Some [0, 0, 0]
   \<and> Student_ctor 20 ''Bob'' 1 1 2 3 (start_state 2) = (Inl BadAlloc, start_state 2)"
proof -
  have a: "INT_MIN \<le> population (start_state m)" and b: "population (start_state m) \<noteq> INT_MAX"
    for m by (simp_all add: start_state_def INT_MIN_def INT_MAX_def)
  have c: "nxt (start_state 10) = 1" "avail (start_state 10) = 10" "avail (start_state 2) = 2"
    by (simp_all add: start_state_def)
  note big = Student_ctor_allocates_three [OF a [of 10] b [of 10], of 20 "''Bob''" 1 1 2 3]
  note small = Student_ctor_allocates_three [OF a [of 2] b [of 2], of 20 "''Bob''" 1 1 2 3]
  have "fst (Student_ctor 20 ''Bob'' 1 1 2 3 (start_state 10)) = Inr 2"
    "marks_of (snd (Student_ctor 20 ''Bob'' 1 1 2 3 (start_state 10))) 2 = Some [1, 2, 3]"
    "marks_of (snd (Student_ctor_default (start_state 10))) 2 = Some [0, 0, 0]"
    using big by (simp_all add: c numeral_2_eq_2)
  moreover have "Student_ctor 20 ''Bob'' 1 1 2 3 (start_state 2) = (Inl BadAlloc, start_state 2)"
    using small by (simp add: c prod_eq_iff)
  ultimately show ?thesis using a [of 10] b [of 10] by (intro conjI)
qed

text \<open>The claim as the specification words it fails on the code: construction with
  negative arguments succeeds, and the cells of a new object are three, not a square
  number, and need not hold one common value.\<close>

theorem Student_ctor_negative_succeeds:
  "fst (Student_ctor (- 1) ''x'' (- 1) (- 1) (- 1) (- 1) (start_state 10)) = Inr 2
   \<and> fst (Student_ctor (- 1) ''x'' (- 1) (- 1) (- 1) (- 1) (start_state 10)) \<noteq> Inl InvalidArgument
   \<and> marks_of (snd (Student_ctor 20 ''Bob'' 1 1 2 3 (start_state 10))) 2 = Some [1, 2, 3]"
  by (simp add: Student_ctor_def Person_ctor_def population_inc_def unwind_Person_def
      new_arr_def place_student_def bnd_def ret_def start_state_def INT_MAX_def marks_of_def)









text \<open>
  Claim C9. The copy assignment \<^verbatim>\<open>x = s\<close> of \<^verbatim>\<open>Student\<close> writes the three marks
  of \<open>s\<close> into the block \<open>x\<close> already owns and changes nothing else: the object
  \<open>x\<close> keeps its \<^verbatim>\<open>id\<close>, \<^verbatim>\<open>age\<close>, \<^verbatim>\<open>name\<close> and its \<^verbatim>\<open>marks\<close> pointer,
  every other object and every other block stay as they were, and so do the counters.
\<close>

theorem Student_assign_only_marks:
  assumes "students st this = Some x"
    and "marks_of st this = Some ws"
    and "marks_of st s = Some vs"
  shows "Student_assign this s st = (Inr (), st\<lparr>heap := (heap st)(marks x \<mapsto> map IntV vs)\<rparr>)
       \<and> students (snd (Student_assign this s st)) = students st
       \<and> marks_of (snd (Student_assign this s st)) this = Some vs"
proof -
  from assms(2) assms(1) obtain w0 w1 w2 where
    hx: "heap st (marks x) = Some [IntV w0, IntV w1, IntV w2]"
    by (auto elim!: marks_of_SomeD)
  from assms(3) obtain y v0 v1 v2 where
    y: "students st s = Some y" and hy: "heap st (marks y) = Some [IntV v0, IntV v1, IntV v2]"
    and vs: "vs = [v0, v1, v2]"
    by (auto elim!: marks_of_SomeD)
  have run: "Student_assign this s st =
      (Inr (), st\<lparr>heap := (heap st)(marks x \<mapsto> map IntV vs)\<rparr>)"
    using assms(1) y copy_marks_run [OF hy hx] vs
    by (simp add: Student_assign_def the_student_def bnd_def)
  show ?thesis
    using run assms(1) vs by (simp add: marks_of_def)
qed

theorem Student_assign_only_marks_witness:
  "students two_students 2 = Some \<lparr>id' = 1, age = 20, name = ''Bob'', marks = 1\<rparr>
   \<and> marks_of two_students 2 = Some [1, 2, 3]
   \<and> marks_of two_students 4 = Some [4, 5, 6]
   \<and> students (snd (Student_assign 2 4 two_students)) 2 =
       Some \<lparr>id' = 1, age = 20, name = ''Bob'', marks = 1\<rparr>
   \<and> marks_of (snd (Student_assign 2 4 two_students)) 2 = Some [4, 5, 6]"
proof -
  have a: "students two_students 2 = Some \<lparr>id' = 1, age = 20, name = ''Bob'', marks = 1\<rparr>"
    and b: "marks_of two_students 2 = Some [1, 2, 3]"
    and c: "marks_of two_students 4 = Some [4, 5, 6]"
    by (simp_all add: two_students_eq marks_of_def)
  show ?thesis
    using a b c Student_assign_only_marks [OF a b c]
    by (simp add: two_students_eq marks_of_def)
qed

text \<open>
  Claim C10. Each of the two ordinary constructors of \<^verbatim>\<open>Person\<close> adds exactly 1 to
  \<^verbatim>\<open>Person::population\<close>, the destructor subtracts exactly 1, and the copy
  constructor leaves the counter as it is; so copying a person and destroying the copy
  leaves the counter 1 below its value before the copy. (The counter is a C++
  \<^verbatim>\<open>int\<close>: the statement is for a counter that is not at the end of its range.)
\<close>

theorem Person_population_count:
  assumes "population st \<noteq> INT_MAX" and "population st \<noteq> INT_MIN"
  shows "Person_ctor_default x st =
           (Inr \<lparr>id' = 0, age = x, name = ''Default''\<rparr>, st\<lparr>population := population st + 1\<rparr>)
       \<and> Person_ctor a n i st =
           (Inr \<lparr>id' = i, age = a, name = n\<rparr>, st\<lparr>population := population st + 1\<rparr>)
       \<and> Person_copy p st = (Inr \<lparr>id' = id' p, age = age p, name = name p\<rparr>, st)
       \<and> Person_dtor p st = (Inr (), st\<lparr>population := population st - 1\<rparr>)
       \<and> bnd (Person_copy p) Person_dtor st = (Inr (), st\<lparr>population := population st - 1\<rparr>)"
  using assms
  by (simp add: Person_ctor_default_def Person_ctor_def Person_copy_def Person_dtor_def
      population_inc_def population_dec_def bnd_def ret_def)

theorem Person_population_count_witness:
  "population (start_state 0) \<noteq> INT_MAX \<and> population (start_state 0) \<noteq> INT_MIN
   \<and> population (snd (Person_ctor_default 5 (start_state 0))) = 1
   \<and> population (snd (Person_ctor 25 ''Alice'' 101 (start_state 0))) = 1
   \<and> population (snd (Person_copy \<lparr>id' = 101, age = 25, name = ''Alice''\<rparr> (start_state 0))) = 0
   \<and> population (snd (bnd (Person_copy \<lparr>id' = 101, age = 25, name = ''Alice''\<rparr>) Person_dtor
        (start_state 0))) = - 1"
proof -
  have a: "population (start_state 0) \<noteq> INT_MAX" and b: "population (start_state 0) \<noteq> INT_MIN"
    by (simp_all add: start_state_def INT_MAX_def INT_MIN_def)
  show ?thesis
    using a b
      Person_population_count [OF a b, of 5 25 "''Alice''" 101
        "\<lparr>id' = 101, age = 25, name = ''Alice''\<rparr>"]
    by (simp add: start_state_def)
qed


end
